theory Spec2Isabelle
  imports Main "HOL-Library.Word"
begin

section \<open>Values shared by the server and the client\<close>

text \<open>
  A value thrown by JavaScript code: an \<open>Error\<close> object, of which the code reads only
  \<open>message\<close>; some other value that is neither null nor undefined, for which
  \<open>instanceof Error\<close> is false and whose \<open>message\<close> property is undefined (\<open>None\<close>) or
  a string; or null or undefined, on which reading \<open>message\<close> throws a TypeError.
\<close>

datatype thrown = Error (message: string) | NonError "string option" | Nullish

text \<open>
  A string that comes with a request or is typed by the user is kept as its UTF-16 code
  units, which is what \<open>trim\<close> and the test against the empty string see. The strings
  the code itself writes (messages, field names) are \<open>string\<close> literals.
\<close>

type_synonym jsstring = "16 word list"

type_synonym byte = "8 word"

text \<open>A \<open>File\<close> (a \<open>Blob\<close> with a name): its name, its MIME type and its bytes.\<close>

record File =
  name :: string
  type :: string
  bytes :: "byte list"

text \<open>
  An entry of a \<open>FormData\<close> is a string or a \<open>File\<close>; \<open>formData.get\<close> returns the
  first entry of that name, or null. The source casts the result (\<open>as File | null\<close>,
  \<open>as string | null\<close>), which checks nothing at run time, so both kinds are kept.
\<close>

datatype form_value = FString jsstring | FFile File

type_synonym form_data = "(string \<times> form_value) list"

definition get :: "form_data \<Rightarrow> string \<Rightarrow> form_value option" where
  "get fd k = map_of fd k"

subsection \<open>String.prototype.trim\<close>

text \<open>
  \<open>trim\<close> removes white space and line terminators from both ends. In ECMAScript the
  white space is tab, vertical tab, form feed, the byte order mark U+FEFF and the space
  separators of Unicode (U+0020, U+00A0, U+1680, U+2000 to U+200A, U+202F, U+205F,
  U+3000); the line terminators are line feed, carriage return, U+2028 and U+2029. All
  of them are single code units.
\<close>

definition isWhiteSpace :: "16 word \<Rightarrow> bool" where
  "isWhiteSpace c =
     (c \<in> set [0x0009, 0x000A, 0x000B, 0x000C, 0x000D, 0x0020, 0x00A0, 0x1680,
                 0x2028, 0x2029, 0x202F, 0x205F, 0x3000, 0xFEFF]
      \<or> (0x2000 \<le> c \<and> c \<le> 0x200A))"

definition trim :: "jsstring \<Rightarrow> jsstring" where
  "trim s = rev (dropWhile isWhiteSpace (rev (dropWhile isWhiteSpace s)))"

subsection \<open>Buffer.toString("base64")\<close>

definition b64 :: "nat \<Rightarrow> char" where
  "b64 i = ''ABCDEFGHIJKLMNOPQRSTUVWXYZabcdefghijklmnopqrstuvwxyz0123456789+/'' ! i"

fun base64 :: "byte list \<Rightarrow> string" where
  "base64 (a # b # c # rest) =
     [b64 (unat a div 4), b64 (unat a mod 4 * 16 + unat b div 16),
      b64 (unat b mod 16 * 4 + unat c div 64), b64 (unat c mod 64)] @ base64 rest"
| "base64 [a, b] =
     [b64 (unat a div 4), b64 (unat a mod 4 * 16 + unat b div 16),
      b64 (unat b mod 16 * 4), CHR ''='']"
| "base64 [a] = [b64 (unat a div 4), b64 (unat a mod 4 * 16), CHR ''='', CHR ''='']"
| "base64 [] = []"

section \<open>The transcription gateway (index.tsx)\<close>

subsection \<open>The generative-AI SDK, an external collaborator\<close>

text \<open>
  The SDK is not part of the repository. It is a parameter of the model: a constructor
  of clients from an API key, a constructor of models from a client and a model name, and
  the call that sends a request (\<open>generateContent\<close> followed by \<open>response.text()\<close>).
  Each of them returns a handle or a text, or throws. \<open>'c\<close> is the type of client handles,
  \<open>'m\<close> the type of model handles.
\<close>

datatype HarmCategory =
  HARM_CATEGORY_HARASSMENT | HARM_CATEGORY_HATE_SPEECH
| HARM_CATEGORY_SEXUALLY_EXPLICIT | HARM_CATEGORY_DANGEROUS_CONTENT

datatype HarmBlockThreshold = BLOCK_MEDIUM_AND_ABOVE

record inlineData =
  data :: string
  mimeType :: string

datatype part = Text string | InlineData inlineData

record content =
  role :: string
  parts :: "part list"

text \<open>\<open>temperature\<close> is 0.7 in the source; it is kept in tenths.\<close>

record generationConfig_t =
  temperature_tenths :: nat
  topK :: nat
  topP :: nat
  maxOutputTokens :: nat

record gen_request =
  contents :: "content list"
  generationConfig_of :: generationConfig_t
  safetySettings_of :: "(HarmCategory \<times> HarmBlockThreshold) list"

record ('c, 'm) sdk =
  GoogleGenerativeAI :: "jsstring \<Rightarrow> thrown + 'c"
  getGenerativeModel :: "'c \<Rightarrow> string \<Rightarrow> thrown + 'm"
  generateContent :: "'m \<Rightarrow> gen_request \<Rightarrow> thrown + string"

text \<open>The calls made to the SDK, in order.\<close>

datatype ('c, 'm) call =
  NewClient jsstring | GetModel 'c string | GenerateContent 'm gen_request

fun isGenerate :: "('c, 'm) call \<Rightarrow> bool" where
  "isGenerate (GenerateContent m r) = True"
| "isGenerate _ = False"

subsection \<open>Module state\<close>

definition generationConfig :: generationConfig_t where
  "generationConfig =
     \<lparr>temperature_tenths = 7, topK = 1, topP = 1, maxOutputTokens = 2048\<rparr>"

definition safetySettings :: "(HarmCategory \<times> HarmBlockThreshold) list" where
  "safetySettings =
     [(HARM_CATEGORY_HARASSMENT, BLOCK_MEDIUM_AND_ABOVE),
      (HARM_CATEGORY_HATE_SPEECH, BLOCK_MEDIUM_AND_ABOVE),
      (HARM_CATEGORY_SEXUALLY_EXPLICIT, BLOCK_MEDIUM_AND_ABOVE),
      (HARM_CATEGORY_DANGEROUS_CONTENT, BLOCK_MEDIUM_AND_ABOVE)]"

definition modelName :: string where
  "modelName = ''gemini-2.0-flash-001''"

text \<open>The two module constants \<open>genAI\<close> and \<open>model\<close>, each a handle or null.\<close>

record ('c, 'm) server =
  genAI :: "'c option"
  model :: "'m option"

text \<open>
  Module initialisation (lines 5 to 16). \<open>GEMINI_API_KEY\<close> is the environment variable,
  absent or a string; the empty string is falsy. A throw at module level ends the process.
\<close>

definition startup :: "('c, 'm) sdk \<Rightarrow> jsstring option \<Rightarrow> thrown + ('c, 'm) server" where
  "startup k GEMINI_API_KEY =
     (case GEMINI_API_KEY of
        None \<Rightarrow> Inr \<lparr>genAI = None, model = None\<rparr>
      | Some key \<Rightarrow>
          if key = [] then Inr \<lparr>genAI = None, model = None\<rparr>
          else (case GoogleGenerativeAI k key of
                  Inl e \<Rightarrow> Inl e
                | Inr g \<Rightarrow>
                    (case getGenerativeModel k g modelName of
                       Inl e \<Rightarrow> Inl e
                     | Inr m \<Rightarrow> Inr \<lparr>genAI = Some g, model = Some m\<rparr>)))"

subsection \<open>POST /api/transcribe\<close>

text \<open>
  A request is what \<open>await req.formData()\<close> makes of it: the parsed form, or the value
  thrown when the body is not a form.
\<close>

record request =
  formData :: "thrown + form_data"

text \<open>\<open>Response.json(obj, {status})\<close>; a property whose value is undefined is left out.\<close>

record response =
  status :: nat
  body :: "(string \<times> string) list"

definition json :: "nat \<Rightarrow> (string \<times> string option) list \<Rightarrow> response" where
  "json st obj =
     \<lparr>status = st,
      body = concat (map (\<lambda>(k, v). case v of None \<Rightarrow> [] | Some s \<Rightarrow> [(k, s)]) obj)\<rparr>"

text \<open>
  What the handler does: it returns a response, or a value propagates out of it. The
  second component of a result is the list of calls made to the SDK.
\<close>

datatype outcome = Responded response | Unhandled thrown

text \<open>
  \<open>e.message\<close> for \<open>e: any\<close> (line 55): the message, undefined, or a TypeError of its
  own when \<open>e\<close> is null or undefined; the wording of that TypeError is the engine's.
  Then the \<open>instanceof Error\<close> test of the second catch (line 104).
\<close>

definition message_of :: "thrown \<Rightarrow> thrown + string option" where
  "message_of e =
     (case e of
        Error m \<Rightarrow> Inr (Some m)
      | NonError m \<Rightarrow> Inr m
      | Nullish \<Rightarrow> Inl (Error ''Cannot read properties of null (reading message)''))"

definition errorMessage :: "thrown \<Rightarrow> string" where
  "errorMessage e = (case e of Error m \<Rightarrow> m | _ \<Rightarrow> ''An unknown error occurred'')"

text \<open>
  Calling a method that the value does not have throws a TypeError; the wording of its
  message is the engine's.
\<close>

definition notAFunction :: "string \<Rightarrow> thrown" where
  "notAFunction what = Error (what @ '' is not a function'')"

text \<open>
  Lines 68 to 106: the \<open>try\<close> block that checks the audio file, builds the request and
  calls the model, and its \<open>catch\<close>.
\<close>

definition audioRequest :: "byte list \<Rightarrow> gen_request" where
  "audioRequest audioBytes =
     \<lparr>contents =
        [\<lparr>role = ''user'',
          parts = [Text ''Please transcribe the following audio:'',
                   InlineData \<lparr>data = base64 audioBytes, mimeType = ''audio/webm''\<rparr>]\<rparr>],
      generationConfig_of = generationConfig,
      safetySettings_of = safetySettings\<rparr>"

definition failed :: "thrown \<Rightarrow> response" where
  "failed e =
     json 500 [(''error'', Some ''Failed to transcribe audio.''),
               (''details'', Some (errorMessage e))]"

definition transcribe ::
  "('c, 'm) sdk \<Rightarrow> 'm \<Rightarrow> form_value option \<Rightarrow> response \<times> ('c, 'm) call list" where
  "transcribe k currentModel audioFile =
     (case audioFile of
        None \<Rightarrow> (json 400 [(''error'', Some ''No audio file provided.'')], [])
      | Some (FString s) \<Rightarrow>
          if s = [] then (json 400 [(''error'', Some ''No audio file provided.'')], [])
          else (failed (notAFunction ''audioFile.arrayBuffer''), [])
      | Some (FFile f) \<Rightarrow>
          (case generateContent k currentModel (audioRequest (bytes f)) of
             Inl e \<Rightarrow> (failed e, [GenerateContent currentModel (audioRequest (bytes f))])
           | Inr transcribedText \<Rightarrow>
               (json 200 [(''transcription'', Some transcribedText)],
                [GenerateContent currentModel (audioRequest (bytes f))])))"

text \<open>
  Lines 47 to 65: the choice of the model for this request. It ends in a model, in a
  response returned early, or in a throw outside every \<open>try\<close>: of \<open>trim\<close> on a file,
  or of \<open>e.message\<close> inside the \<open>catch\<close> (\<open>invalidToken\<close>, lines 53 to 56).
\<close>

datatype ('c, 'm) resolution =
  Resolved 'c 'm | Returned response | Thrown thrown

text \<open>The test \<open>clientToken && clientToken.trim() !== ""\<close> on a string.\<close>

definition nonBlank :: "jsstring \<Rightarrow> bool" where
  "nonBlank t = (t \<noteq> [] \<and> trim t \<noteq> [])"

definition invalidToken ::
  "thrown \<Rightarrow> ('c, 'm) call list \<Rightarrow> ('c, 'm) resolution \<times> ('c, 'm) call list" where
  "invalidToken e cs =
     (case message_of e of
        Inl te \<Rightarrow> (Thrown te, cs)
      | Inr details \<Rightarrow>
          (Returned (json 400 [(''error'', Some ''Invalid client-provided API token.''),
                               (''details'', details)]),
           cs))"

definition resolve ::
  "('c, 'm) sdk \<Rightarrow> ('c, 'm) server \<Rightarrow> form_value option
     \<Rightarrow> ('c, 'm) resolution \<times> ('c, 'm) call list" where
  "resolve k srv clientToken =
     (let fallback =
        (case (genAI srv, model srv) of
           (Some g, Some m) \<Rightarrow> (Resolved g m, [])
         | _ \<Rightarrow>
           (Returned (json 500 [(''error'', Some
              ''API token is required. Configure it on the server or provide it in the request.'')]),
            []))
      in case clientToken of
        None \<Rightarrow> fallback
      | Some (FFile f) \<Rightarrow> (Thrown (notAFunction ''clientToken.trim''), [])
      | Some (FString t) \<Rightarrow>
          if nonBlank t then
            (case GoogleGenerativeAI k t of
               Inl e \<Rightarrow> invalidToken e [NewClient t]
             | Inr g \<Rightarrow>
                 (case getGenerativeModel k g modelName of
                    Inl e \<Rightarrow> invalidToken e [NewClient t, GetModel g modelName]
                  | Inr m \<Rightarrow> (Resolved g m, [NewClient t, GetModel g modelName])))
          else fallback)"

definition POST ::
  "('c, 'm) sdk \<Rightarrow> ('c, 'm) server \<Rightarrow> request \<Rightarrow> outcome \<times> ('c, 'm) call list" where
  "POST k srv req =
     (case formData req of
        Inl e \<Rightarrow> (Unhandled e, [])
      | Inr fd \<Rightarrow>
          (let audioFile = get fd ''audio_file'';
               clientToken = get fd ''gemini_api_token''
           in case resolve k srv clientToken of
                (Thrown e, cs) \<Rightarrow> (Unhandled e, cs)
              | (Returned r, cs) \<Rightarrow> (Responded r, cs)
              | (Resolved currentGenAI currentModel, cs) \<Rightarrow>
                  (case transcribe k currentModel audioFile of
                     (r, cs') \<Rightarrow> (Responded r, cs @ cs'))))"

text \<open>
  The construction of lines 50 to 52, for the key \<open>t\<close>, throws null or undefined: the
  one case in which the \<open>catch\<close> of lines 53 to 56 throws in its turn.
\<close>

definition throwsNullish :: "('c, 'm) sdk \<Rightarrow> jsstring \<Rightarrow> bool" where
  "throwsNullish k t =
     (case GoogleGenerativeAI k t of
        Inl e \<Rightarrow> e = Nullish
      | Inr g \<Rightarrow> getGenerativeModel k g modelName = Inl Nullish)"

definition statusOf :: "outcome \<Rightarrow> nat option" where
  "statusOf out = (case out of Responded r \<Rightarrow> Some (status r) | Unhandled e \<Rightarrow> None)"

text \<open>
  An SDK to run the handler on, and keys for it, written as code units: \<open>keyAbc\<close> is
  \<open>abc\<close>, \<open>keySrv\<close> is \<open>srv\<close>, \<open>keyBad\<close> is \<open>bad\<close> and is refused by the
  constructor, \<open>keyDown\<close> is \<open>down\<close> and a model made with it fails its call,
  \<open>keyBlank\<close> is a space and a no-break space. Any other model answers \<open>hi there\<close>.
  A client handle is its key, a model handle the pair of its key and its name.
\<close>

definition keyAbc :: jsstring where
  "keyAbc = [0x61, 0x62, 0x63]"

definition keySrv :: jsstring where
  "keySrv = [0x73, 0x72, 0x76]"

definition keyBad :: jsstring where
  "keyBad = [0x62, 0x61, 0x64]"

definition keyDown :: jsstring where
  "keyDown = [0x64, 0x6F, 0x77, 0x6E]"

definition keyBlank :: jsstring where
  "keyBlank = [0x20, 0xA0]"

definition exampleSdk :: "(jsstring, jsstring \<times> string) sdk" where
  "exampleSdk =
     \<lparr>GoogleGenerativeAI =
        (\<lambda>key. if key = keyBad then Inl (Error ''API key not valid'') else Inr key),
      getGenerativeModel = (\<lambda>c n. Inr (c, n)),
      generateContent =
        (\<lambda>m r. if fst m = keyDown then Inl (Error ''upstream'') else Inr ''hi there'')\<rparr>"

definition exampleFile :: File where
  "exampleFile = \<lparr>name = ''recording.webm'', type = ''audio/webm'', bytes = [1, 2, 3]\<rparr>"

section \<open>The recording client (App.tsx)\<close>

subsection \<open>What \<open>fetch\<close> gives back\<close>

text \<open>
  A parsed JSON value. A number is kept as the two things the client can observe of it:
  whether it is truthy (neither 0 nor NaN) and its rendering as a string. The list of an
  object holds its own properties; \<open>map_of\<close> reads one.
\<close>

datatype json_value =
  JNull | JBool bool | JNum bool string | JStr string
| JArr "json_value list" | JObj "(string \<times> json_value) list"

text \<open>
  \<open>result.k\<close> for one of the three names the client reads (\<open>error\<close>, \<open>details\<close>,
  \<open>transcription\<close>): a TypeError on null, the own property of an object, and undefined
  (\<open>None\<close>) on a string, a number, a boolean or an array, which have no such property.
\<close>

definition property :: "json_value \<Rightarrow> string \<Rightarrow> thrown + json_value option" where
  "property result k =
     (case result of
        JNull \<Rightarrow> Inl (Error (''Cannot read properties of null (reading '' @ k @ '')''))
      | JObj kvs \<Rightarrow> Inr (map_of kvs k)
      | _ \<Rightarrow> Inr None)"

fun truthy :: "json_value option \<Rightarrow> bool" where
  "truthy None = False"
| "truthy (Some JNull) = False"
| "truthy (Some (JBool b)) = b"
| "truthy (Some (JNum t shown)) = t"
| "truthy (Some (JStr s)) = (s \<noteq> [])"
| "truthy (Some (JArr xs)) = True"
| "truthy (Some (JObj kvs)) = True"

text \<open>\<open>a || b\<close> where \<open>b\<close> is a value.\<close>

definition orElse :: "json_value option \<Rightarrow> json_value \<Rightarrow> json_value" where
  "orElse a b = (case a of None \<Rightarrow> b | Some v \<Rightarrow> if truthy (Some v) then v else b)"

fun join :: "string \<Rightarrow> string list \<Rightarrow> string" where
  "join sep [] = []"
| "join sep [s] = s"
| "join sep (s # t # ss) = s @ sep @ join sep (t # ss)"

text \<open>
  The conversion to a string made by a template literal and by \<open>new Error(v)\<close>. An array
  joins its elements with commas, null elements as empty strings. An object becomes
  \<open>[object Object]\<close> unless an own property hides \<open>toString\<close>: a parsed value is never
  callable, so the conversion then throws a TypeError.
\<close>

fun ToString :: "json_value \<Rightarrow> thrown + string"
  and elements :: "json_value list \<Rightarrow> thrown + string list" where
  "ToString JNull = Inr ''null''"
| "ToString (JBool b) = Inr (if b then ''true'' else ''false'')"
| "ToString (JNum t shown) = Inr shown"
| "ToString (JStr s) = Inr s"
| "ToString (JArr xs) =
     (case elements xs of Inl e \<Rightarrow> Inl e | Inr ss \<Rightarrow> Inr (join '','' ss))"
| "ToString (JObj kvs) =
     (if map_of kvs ''toString'' = None then Inr ''[object Object]''
      else Inl (Error ''Cannot convert object to primitive value''))"
| "elements [] = Inr []"
| "elements (x # xs) =
     (case (if x = JNull then Inr [] else ToString x) of
        Inl e \<Rightarrow> Inl e
      | Inr s \<Rightarrow> (case elements xs of Inl e \<Rightarrow> Inl e | Inr ss \<Rightarrow> Inr (s # ss)))"

text \<open>
  The outcome of \<open>await fetch(...)\<close> followed by \<open>await response.json()\<close>: the fetch
  rejects, or it gives a response with a status whose body parses as JSON or makes
  \<open>json()\<close> throw.
\<close>

datatype fetch_result = Rejected thrown | Settled nat "thrown + json_value"

definition ok :: "nat \<Rightarrow> bool" where
  "ok st = (200 \<le> st \<and> st \<le> 299)"

subsection \<open>The component's state and the browser objects it holds\<close>

datatype RecordingState = inactive | recording | paused

text \<open>
  A \<open>MediaRecorder\<close> made by the component: its \<open>state\<close>; the stream it records, which
  its \<open>onstop\<close> closure also holds; the \<open>geminiApiToken\<close> of the render whose
  \<open>sendAudioForTranscription\<close> that closure calls; and whether the browser still has to
  deliver the events of a stop (the last \<open>dataavailable\<close>, then \<open>stop\<close>).
\<close>

record MediaRecorder =
  state :: RecordingState
  stream :: nat
  token :: jsstring
  stopping :: bool

text \<open>
  The five \<open>useState\<close> cells, the two refs, and the browser's side: every recorder made
  so far (a recorder is named by its index), for every stream acquired so far the number of
  times its tracks were stopped (a stream is named by its index), the calls of
  \<open>getUserMedia\<close> that have not settled (each with the token its continuation holds), and
  the fetches that have not settled (each with the form it sent). A \<open>Blob\<close> is its bytes.
\<close>

record world =
  isListening :: bool
  geminiApiToken :: jsstring
  transcribedText :: string
  statusText :: string
  errorText :: string
  mediaRecorderRef :: "nat option"
  audioChunksRef :: "byte list list"
  recorders :: "MediaRecorder list"
  trackStops :: "nat list"
  awaitingMedia :: "jsstring list"
  awaitingFetch :: "form_data list"

definition initial :: world where
  "initial =
     \<lparr>isListening = False, geminiApiToken = [], transcribedText = [],
      statusText = ''Click the button to start voice input.'', errorText = [],
      mediaRecorderRef = None, audioChunksRef = [],
      recorders = [], trackStops = [], awaitingMedia = [], awaitingFetch = []\<rparr>"

text \<open>Lines 177 and 178 of the markup: the error is shown if there is one, else the status.\<close>

datatype shown = ShowsError string | ShowsStatus string | ShowsNothing

definition display :: "world \<Rightarrow> shown" where
  "display w =
     (if errorText w \<noteq> [] then ShowsError (errorText w)
      else if statusText w \<noteq> [] then ShowsStatus (statusText w)
      else ShowsNothing)"

subsection \<open>sendAudioForTranscription\<close>

text \<open>Lines 19 to 34: up to the \<open>await\<close> of the fetch, which is left pending.\<close>

definition sendAudioForTranscription :: "jsstring \<Rightarrow> File \<Rightarrow> world \<Rightarrow> world" where
  "sendAudioForTranscription tok audioFile w =
     (let w1 = w\<lparr>statusText := ''Transcribing audio...'', errorText := []\<rparr>;
          form = [(''audio_file'', FFile (audioFile\<lparr>name := ''recording.webm''\<rparr>))]
                   @ (if tok \<noteq> [] then [(''gemini_api_token'', FString tok)] else [])
      in w1\<lparr>awaitingFetch := awaitingFetch w1 @ [form]\<rparr>)"

text \<open>
  Lines 36 to 42, inside the \<open>try\<close>: the value of \<open>newTranscription\<close>, or what is
  thrown. When the response is not ok, the \<open>Error\<close> thrown carries the string made of
  \<open>result.error || result.details || "Transcription failed"\<close>.
\<close>

definition newTranscription :: "fetch_result \<Rightarrow> thrown + json_value" where
  "newTranscription fr =
     (case fr of
        Rejected e \<Rightarrow> Inl e
      | Settled st parsed \<Rightarrow>
          (case parsed of
             Inl e \<Rightarrow> Inl e
           | Inr result \<Rightarrow>
               if \<not> ok st then
                 (case property result ''error'' of
                    Inl e \<Rightarrow> Inl e
                  | Inr err \<Rightarrow>
                      (case (if truthy err then Inr err else property result ''details'') of
                         Inl e \<Rightarrow> Inl e
                       | Inr x \<Rightarrow>
                           (case ToString (orElse x (JStr ''Transcription failed'')) of
                              Inl e \<Rightarrow> Inl e
                            | Inr m \<Rightarrow> Inl (Error m))))
               else
                 (case property result ''transcription'' of
                    Inl e \<Rightarrow> Inl e
                  | Inr t \<Rightarrow> Inr (orElse t (JStr [])))))"

text \<open>
  Lines 36 to 61: the continuation once the fetch has settled. \<open>now\<close> is what
  \<open>new Date().toLocaleTimeString()\<close> gives at that moment.
\<close>

definition caught :: "thrown \<Rightarrow> world \<Rightarrow> world" where
  "caught err w =
     (let message = (case err of Error m \<Rightarrow> m
                     | _ \<Rightarrow> ''An unknown error occurred during transcription.'')
      in w\<lparr>errorText := ''Error: '' @ message,
            statusText := ''Error during transcription. Please try again.''\<rparr>)"

definition transcriptionSettled :: "fetch_result \<Rightarrow> string \<Rightarrow> world \<Rightarrow> world" where
  "transcriptionSettled fr now w =
     (case newTranscription fr of
        Inl err \<Rightarrow> caught err w
      | Inr v \<Rightarrow>
          if truthy (Some v) then
            (case ToString v of
               Inl err \<Rightarrow> caught err w
             | Inr text \<Rightarrow>
                 (let timestamp = now;
                      newEntry = ''['' @ timestamp @ ''] '' @ text;
                      prevText = transcribedText w
                  in w\<lparr>transcribedText :=
                          (if prevText \<noteq> [] then prevText @ [CHR 0x0A] @ newEntry
                           else newEntry),
                        statusText := ''Transcription complete. Click to start again.''\<rparr>))
          else w\<lparr>statusText := ''Transcription complete. Click to start again.''\<rparr>)"

subsection \<open>handleToggleListen and the recorder's handlers\<close>

text \<open>\<open>MediaRecorder.stop()\<close>: the recorder becomes inactive and its last events are due.\<close>

definition stop :: "nat \<Rightarrow> world \<Rightarrow> world" where
  "stop r w =
     w\<lparr>recorders := (recorders w)[r := (recorders w ! r)\<lparr>state := inactive, stopping := True\<rparr>]\<rparr>"

text \<open>
  Lines 65 to 77: the handler up to its \<open>await\<close>. In the branch that starts, the call of
  \<open>getUserMedia\<close> is left pending, with the token of this render.
\<close>

definition handleToggleListen :: "world \<Rightarrow> world" where
  "handleToggleListen w =
     (let w1 = w\<lparr>errorText := []\<rparr>
      in if isListening w1 then
           (let w2 = (case mediaRecorderRef w1 of
                        None \<Rightarrow> w1
                      | Some r \<Rightarrow>
                          if state (recorders w1 ! r) = recording then stop r w1 else w1)
            in w2\<lparr>isListening := False\<rparr>)
         else w1\<lparr>awaitingMedia := awaitingMedia w1 @ [geminiApiToken w1]\<rparr>)"

text \<open>Lines 101 to 107: the \<open>catch\<close> of the branch that starts.\<close>

definition microphoneFailed :: "thrown \<Rightarrow> world \<Rightarrow> world" where
  "microphoneFailed err w =
     (let message = (case err of Error m \<Rightarrow> m | _ \<Rightarrow> ''An unknown error occurred.'')
      in w\<lparr>errorText := ''Error accessing microphone: '' @ message
                          @ ''. Please ensure permission is granted.'',
            statusText := ''Could not start listening. Check microphone permissions.'',
            isListening := False\<rparr>)"

text \<open>
  Lines 77 to 100: the continuation once \<open>getUserMedia\<close> has given a stream, which is new.
  \<open>ctor\<close> is what \<open>new MediaRecorder(stream)\<close> throws, if it throws, and \<open>start\<close> what
  \<open>start()\<close> throws, if it throws; \<open>tok\<close> is the token held by the continuation.
\<close>

definition streamGranted :: "jsstring \<Rightarrow> thrown option \<Rightarrow> thrown option \<Rightarrow> world \<Rightarrow> world" where
  "streamGranted tok ctor start w =
     (let k = length (trackStops w);
          w1 = w\<lparr>trackStops := trackStops w @ [0]\<rparr>
      in case ctor of
           Some e \<Rightarrow> microphoneFailed e w1
         | None \<Rightarrow>
             (let r = length (recorders w1);
                  w2 = w1\<lparr>recorders := recorders w1
                             @ [\<lparr>state = inactive, stream = k, token = tok, stopping = False\<rparr>],
                          mediaRecorderRef := Some r,
                          audioChunksRef := []\<rparr>
              in case start of
                   Some e \<Rightarrow> microphoneFailed e w2
                 | None \<Rightarrow>
                     w2\<lparr>recorders := (recorders w2)[r := (recorders w2 ! r)\<lparr>state := recording\<rparr>],
                        isListening := True,
                        statusText := ''Listening... Click to stop.''\<rparr>))"

text \<open>Lines 81 to 85.\<close>

definition ondataavailable :: "byte list \<Rightarrow> world \<Rightarrow> world" where
  "ondataavailable d w =
     (if length d > 0 then w\<lparr>audioChunksRef := audioChunksRef w @ [d]\<rparr> else w)"

text \<open>
  Lines 87 to 95, for the recorder \<open>r\<close>: the blob is the concatenation of the chunks, the
  file wraps it, the transcription is sent, and the tracks of the stream are stopped.
\<close>

definition onstop :: "nat \<Rightarrow> world \<Rightarrow> world" where
  "onstop r w =
     (let audioBlob = concat (audioChunksRef w);
          audioFile = \<lparr>name = ''recording.webm'', type = ''audio/webm'', bytes = audioBlob\<rparr>;
          w1 = sendAudioForTranscription (token (recorders w ! r)) audioFile w;
          k = stream (recorders w ! r)
      in w1\<lparr>trackStops := (trackStops w1)[k := Suc (trackStops w1 ! k)]\<rparr>)"

subsection \<open>The event loop\<close>

text \<open>
  One event runs one handler or one continuation to its end. \<open>Click\<close> is the button;
  \<open>Input\<close> is the token field; \<open>MediaResolved i\<close> and \<open>MediaRejected i\<close> settle the
  \<open>i\<close>-th pending call of \<open>getUserMedia\<close>; \<open>DataAvailable r\<close> and \<open>Stop r\<close> are the
  events of the recorder \<open>r\<close>; \<open>TrackEnded r\<close> is the browser stopping the recorder
  \<open>r\<close> by itself, when its tracks end or it fails; \<open>FetchSettled i\<close> settles the
  \<open>i\<close>-th pending fetch. The browser fires \<open>dataavailable\<close> only for a recorder that
  records or is stopping, and \<open>stop\<close> once, after the stop. An event that cannot
  happen gives \<open>None\<close>. The component is rendered again before the next event, so a
  handler reads the state as it is.
\<close>

datatype event =
  Click
| Input jsstring
| MediaResolved nat "thrown option" "thrown option"
| MediaRejected nat thrown
| DataAvailable nat "byte list"
| TrackEnded nat
| Stop nat
| FetchSettled nat fetch_result string

definition without :: "nat \<Rightarrow> 'a list \<Rightarrow> 'a list" where
  "without i xs = take i xs @ drop (Suc i) xs"

fun step :: "event \<Rightarrow> world \<Rightarrow> world option" where
  "step Click w = Some (handleToggleListen w)"
| "step (Input t) w = Some (w\<lparr>geminiApiToken := t\<rparr>)"
| "step (MediaResolved i ctor start) w =
     (if i < length (awaitingMedia w)
      then Some (streamGranted (awaitingMedia w ! i) ctor start
                   (w\<lparr>awaitingMedia := without i (awaitingMedia w)\<rparr>))
      else None)"
| "step (MediaRejected i e) w =
     (if i < length (awaitingMedia w)
      then Some (microphoneFailed e (w\<lparr>awaitingMedia := without i (awaitingMedia w)\<rparr>))
      else None)"
| "step (DataAvailable r d) w =
     (if r < length (recorders w)
         \<and> (state (recorders w ! r) = recording \<or> stopping (recorders w ! r))
      then Some (ondataavailable d w) else None)"
| "step (TrackEnded r) w =
     (if r < length (recorders w) \<and> state (recorders w ! r) = recording
      then Some (stop r w) else None)"
| "step (Stop r) w =
     (if r < length (recorders w) \<and> stopping (recorders w ! r)
      then Some (onstop r
                   (w\<lparr>recorders := (recorders w)[r := (recorders w ! r)\<lparr>stopping := False\<rparr>]\<rparr>))
      else None)"
| "step (FetchSettled i fr now) w =
     (if i < length (awaitingFetch w)
      then Some (transcriptionSettled fr now (w\<lparr>awaitingFetch := without i (awaitingFetch w)\<rparr>))
      else None)"

text \<open>
  A run of events, each allowed by \<open>allowed\<close> in the state where it happens. \<open>run\<close>
  allows every event. \<open>patient\<close> is the user who does not press the button while a call
  of \<open>getUserMedia\<close> is pending.
\<close>

fun runWhile :: "(event \<Rightarrow> world \<Rightarrow> bool) \<Rightarrow> event list \<Rightarrow> world \<Rightarrow> world option" where
  "runWhile allowed [] w = Some w"
| "runWhile allowed (e # es) w =
     (if allowed e w
      then (case step e w of None \<Rightarrow> None | Some w' \<Rightarrow> runWhile allowed es w')
      else None)"

definition run :: "event list \<Rightarrow> world \<Rightarrow> world option" where
  "run es w = runWhile (\<lambda>e w. True) es w"

fun patient :: "event \<Rightarrow> world \<Rightarrow> bool" where
  "patient Click w = (awaitingMedia w = [])"
| "patient e w = True"

text \<open>The number of recorders that are recording.\<close>

definition active :: "world \<Rightarrow> nat" where
  "active w = length (filter (\<lambda>r. state r = recording) (recorders w))"

text \<open>
  A transcription call fails when the fetch rejects, when the body of the response does
  not parse, or when the response is not ok.
\<close>

fun failedCall :: "fetch_result \<Rightarrow> bool" where
  "failedCall (Rejected e) = True"
| "failedCall (Settled st (Inl e)) = True"
| "failedCall (Settled st (Inr result)) = (\<not> ok st)"

text \<open>
  One recording session seen from the state \<open>w\<close> it starts in: the button, the stream
  granted to the request just made, the fragments \<open>ds1\<close> delivered to the new recorder
  while it records, the button again, the fragments \<open>ds2\<close> delivered after the stop was
  asked for, and the recorder's \<open>stop\<close> event.
\<close>

definition session :: "world \<Rightarrow> byte list list \<Rightarrow> byte list list \<Rightarrow> event list" where
  "session w ds1 ds2 =
     (let r = length (recorders w)
      in [Click, MediaResolved (length (awaitingMedia w)) None None]
         @ map (DataAvailable r) ds1 @ [Click] @ map (DataAvailable r) ds2 @ [Stop r])"

subsection \<open>The transcript as the specification has it\<close>

text \<open>
  The specification speaks of a log of entries, each a timestamp and a text, and of an
  operation that appends to it; the component keeps one string. \<open>appendResult\<close> follows
  the specification's words, and \<open>rendered\<close> is the string that stands for a log: one line
  per entry, the oldest first.
\<close>

type_synonym TranscriptEntry = "string \<times> string"

definition appendResult :: "string \<Rightarrow> string \<Rightarrow> TranscriptEntry list \<Rightarrow> TranscriptEntry list" where
  "appendResult text now log = (if text = [] then log else log @ [(now, text)])"

definition entryLine :: "TranscriptEntry \<Rightarrow> string" where
  "entryLine e = ''['' @ fst e @ ''] '' @ snd e"

definition rendered :: "TranscriptEntry list \<Rightarrow> string" where
  "rendered log = join [CHR 0x0A] (map entryLine log)"

subsection \<open>Invariants of the event loop\<close>

text \<open>
  What holds along a run in which the user is patient: at most one call of
  \<open>getUserMedia\<close> is pending, the ref names an existing recorder, and a recorder that is
  recording is the one the ref names, while the component is listening and no call is
  pending.
\<close>

definition orderly :: "world \<Rightarrow> bool" where
  "orderly w \<longleftrightarrow>
     length (awaitingMedia w) \<le> 1
     \<and> (\<forall>r. mediaRecorderRef w = Some r \<longrightarrow> r < length (recorders w))
     \<and> (\<forall>r < length (recorders w). state (recorders w ! r) = recording \<longrightarrow>
           mediaRecorderRef w = Some r \<and> isListening w \<and> awaitingMedia w = [])"

text \<open>
  What holds along every run: the ref names an existing recorder, no two recorders share
  a stream, every recorder's stream exists, a recorder whose stop is due is not recording,
  the stream of a recorder that records or whose stop is due has not been released, and
  no stream has been released more than once.
\<close>

definition consistent :: "world \<Rightarrow> bool" where
  "consistent w \<longleftrightarrow>
     (\<forall>r. mediaRecorderRef w = Some r \<longrightarrow> r < length (recorders w))
     \<and> distinct (map stream (recorders w))
     \<and> (\<forall>r < length (recorders w).
           stream (recorders w ! r) < length (trackStops w)
           \<and> (stopping (recorders w ! r) \<longrightarrow> state (recorders w ! r) \<noteq> recording)
           \<and> (state (recorders w ! r) = recording \<or> stopping (recorders w ! r) \<longrightarrow>
                trackStops w ! stream (recorders w ! r) = 0))
     \<and> (\<forall>k < length (trackStops w). trackStops w ! k \<le> 1)"

section \<open>Properties of the gateway\<close>

subsection \<open>Auxiliary facts\<close>

lemma trim_Nil_iff: "trim t = [] \<longleftrightarrow> (\<forall>c \<in> set t. isWhiteSpace c)"
proof -
  have "(\<forall>x \<in> set (dropWhile isWhiteSpace t). isWhiteSpace x) \<longleftrightarrow> dropWhile isWhiteSpace t = []"
    using hd_dropWhile [of isWhiteSpace t]
    by (cases "dropWhile isWhiteSpace t") (auto dest: set_dropWhileD)
  then show ?thesis by (simp add: trim_def)
qed

lemma nonBlank_iff: "nonBlank t \<longleftrightarrow> (\<exists>c \<in> set t. \<not> isWhiteSpace c)"
  by (auto simp: nonBlank_def trim_Nil_iff)

lemma body_json_error [simp]: "map_of (body (json st ((''error'', Some m) # rest))) ''error'' = Some m"
  by (simp add: json_def)

lemma status_json [simp]: "status (json st obj) = st"
  by (simp add: json_def)

lemma transcribe_None: "transcribe k m None = (json 400 [(''error'', Some ''No audio file provided.'')], [])"
  by (simp add: transcribe_def)

lemma resolve_fallback:
  "clientToken = None \<or> (\<exists>t. clientToken = Some (FString t) \<and> \<not> nonBlank t) \<Longrightarrow>
   resolve k srv clientToken =
     (case (genAI srv, model srv) of
        (Some g, Some m) \<Rightarrow> (Resolved g m, [])
      | _ \<Rightarrow> (Returned (json 500 [(''error'', Some
              ''API token is required. Configure it on the server or provide it in the request.'')]), []))"
  by (auto simp: resolve_def)

lemma resolve_client:
  "nonBlank t \<Longrightarrow>
   resolve k srv (Some (FString t)) =
     (case GoogleGenerativeAI k t of
        Inl e \<Rightarrow> invalidToken e [NewClient t]
      | Inr g \<Rightarrow>
         (case getGenerativeModel k g modelName of
            Inl e \<Rightarrow> invalidToken e [NewClient t, GetModel g modelName]
          | Inr m \<Rightarrow> (Resolved g m, [NewClient t, GetModel g modelName])))"
  by (simp add: resolve_def)

lemma invalidToken_cases:
  "(e \<noteq> Nullish \<and> (\<exists>r. invalidToken e cs = (Returned r, cs) \<and> status r = 400
                          \<and> map_of (body r) ''error'' \<noteq> None))
   \<or> (e = Nullish \<and> (\<exists>te. invalidToken e cs = (Thrown te, cs)))"
  by (cases e) (simp_all add: invalidToken_def message_of_def)

text \<open>
  What the resolution of a non-blank caller's key can end in: the model made from the
  key, the answer 400, or a throw when the construction threw null or undefined.
\<close>

lemma resolve_client_cases:
  assumes "nonBlank t"
  shows "(\<exists>g m. GoogleGenerativeAI k t = Inr g \<and> getGenerativeModel k g modelName = Inr m
            \<and> resolve k srv (Some (FString t)) = (Resolved g m, [NewClient t, GetModel g modelName]))
         \<or> (\<not> throwsNullish k t
            \<and> (\<exists>r cs. resolve k srv (Some (FString t)) = (Returned r, NewClient t # cs)
                  \<and> status r = 400 \<and> map_of (body r) ''error'' \<noteq> None
                  \<and> \<not> list_ex isGenerate cs))
         \<or> (throwsNullish k t
            \<and> (\<exists>te cs. resolve k srv (Some (FString t)) = (Thrown te, NewClient t # cs)
                  \<and> \<not> list_ex isGenerate cs))"
proof -
  have tail: "?thesis"
    if r: "resolve k srv (Some (FString t)) = invalidToken e (NewClient t # cs)"
      and n: "throwsNullish k t \<longleftrightarrow> e = Nullish"
      and g: "\<not> list_ex isGenerate cs" for e cs
  proof (cases "e = Nullish")
    case True
    with invalidToken_cases [of e "NewClient t # cs"] obtain te
      where "invalidToken e (NewClient t # cs) = (Thrown te, NewClient t # cs)"
      by blast
    with r n g True show ?thesis by auto
  next
    case False
    with invalidToken_cases [of e "NewClient t # cs"] obtain x
      where "invalidToken e (NewClient t # cs) = (Returned x, NewClient t # cs)"
        "status x = 400" "map_of (body x) ''error'' \<noteq> None"
      by blast
    with r n g False show ?thesis by auto
  qed
  show ?thesis
  proof (cases "GoogleGenerativeAI k t")
    case (Inl e)
    show ?thesis
      by (rule tail [of e "[]"]) (simp_all add: resolve_client [OF assms] throwsNullish_def Inl)
  next
    case (Inr g)
    note g = this
    show ?thesis
    proof (cases "getGenerativeModel k g modelName")
      case (Inl e)
      show ?thesis
        by (rule tail [of e "[GetModel g modelName]"])
           (simp_all add: resolve_client [OF assms] throwsNullish_def g Inl)
    next
      case (Inr m)
      with g show ?thesis
        by (simp add: resolve_client [OF assms])
    qed
  qed
qed

lemma transcribe_calls: "c \<in> set (snd (transcribe k m a)) \<Longrightarrow> \<exists>r. c = GenerateContent m r"
  by (auto simp: transcribe_def split: option.splits form_value.splits sum.splits if_splits)

lemma transcribe_model: "transcribe k m a = (x, cs) \<Longrightarrow> GenerateContent m' r \<in> set cs \<Longrightarrow> m' = m"
  using transcribe_calls [of "GenerateContent m' r" k m a] by simp

lemma transcribe_answer:
  "transcribe k m a = (r, cs) \<Longrightarrow>
   status r = 200 \<or> (status r \<in> {400, 500} \<and> map_of (body r) ''error'' \<noteq> None)"
  by (auto simp: transcribe_def failed_def split: option.splits sum.splits form_value.splits if_splits)

text \<open>
  Once the body has parsed and the credential field is absent or a string, the handler
  answers, with the transcription or with an error body under status 400 or 500, unless
  the construction of the caller's client throws null or undefined.
\<close>

lemma parsed_body_always_answered:
  assumes "formData req = Inr fd"
    and "get fd ''gemini_api_token'' = None \<or> get fd ''gemini_api_token'' = Some (FString t)"
    and "\<not> throwsNullish k t"
  shows "\<exists>r cs. POST k srv req = (Responded r, cs)
           \<and> (status r = 200 \<or> (status r \<in> {400, 500} \<and> map_of (body r) ''error'' \<noteq> None))"
proof (cases "get fd ''gemini_api_token'' = Some (FString t) \<and> nonBlank t")
  case True
  then have tok: "get fd ''gemini_api_token'' = Some (FString t)" and n: "nonBlank t"
    by simp_all
  from resolve_client_cases [OF n, of k srv] assms(3)
  consider g m where "resolve k srv (Some (FString t)) = (Resolved g m, [NewClient t, GetModel g modelName])"
    | r cs where "resolve k srv (Some (FString t)) = (Returned r, NewClient t # cs)"
        "status r = 400" "map_of (body r) ''error'' \<noteq> None"
    by blast
  then show ?thesis
  proof cases
    case 1
    obtain r cs' where t: "transcribe k m (get fd ''audio_file'') = (r, cs')"
      by (cases "transcribe k m (get fd ''audio_file'')")
    from transcribe_answer [OF t] show ?thesis
      using assms(1) tok 1 t by (simp add: POST_def)
  next
    case 2
    then show ?thesis
      using assms(1) tok by (simp add: POST_def)
  qed
next
  case False
  with assms(2) have f: "get fd ''gemini_api_token'' = None
      \<or> (\<exists>t. get fd ''gemini_api_token'' = Some (FString t) \<and> \<not> nonBlank t)"
    by auto
  show ?thesis
  proof (cases "genAI srv \<noteq> None \<and> model srv \<noteq> None")
    case True
    then obtain g m where d: "genAI srv = Some g" "model srv = Some m"
      by auto
    obtain r cs' where t: "transcribe k m (get fd ''audio_file'') = (r, cs')"
      by (cases "transcribe k m (get fd ''audio_file'')")
    from transcribe_answer [OF t] show ?thesis
      using assms(1) d t by (simp add: POST_def resolve_fallback [OF f])
  next
    case False
    then show ?thesis
      using assms(1) by (auto simp: POST_def resolve_fallback [OF f] split: option.splits)
  qed
qed

subsection \<open>Credential resolution\<close>

text \<open>
  C1. For a request whose body parsed and whose credential field is absent or a string,
  the credential is resolved in this order. If the field \<open>gemini_api_token\<close> is a string
  \<open>t\<close> that is not blank, the first call made is the construction of a client from
  \<open>t\<close>, whatever the server's default is, and every transcription call of the request
  goes to a model obtained from that client. Otherwise (the field is absent or blank), if
  the server's default client and model exist, the request is served by the default
  model and by no other; and if they do not exist, the answer is the configuration error
  under status 500 and nothing is called.
\<close>

theorem credential_resolution_order:
  assumes "formData req = Inr fd"
  shows "(get fd ''gemini_api_token'' = Some (FString t) \<and> nonBlank t \<longrightarrow>
            (\<exists>cs. snd (POST k srv req) = NewClient t # cs) \<and>
            (\<forall>m r. GenerateContent m r \<in> set (snd (POST k srv req)) \<longrightarrow>
               (\<exists>g. GoogleGenerativeAI k t = Inr g \<and> getGenerativeModel k g modelName = Inr m)))
       \<and> ((get fd ''gemini_api_token'' = None
            \<or> get fd ''gemini_api_token'' = Some (FString t) \<and> \<not> nonBlank t) \<longrightarrow>
            (genAI srv = Some g0 \<and> model srv = Some m0 \<longrightarrow>
               POST k srv req =
                 (Responded (fst (transcribe k m0 (get fd ''audio_file''))),
                  snd (transcribe k m0 (get fd ''audio_file'')))
               \<and> (\<forall>c \<in> set (snd (POST k srv req)). \<exists>r. c = GenerateContent m0 r))
          \<and> (genAI srv = None \<or> model srv = None \<longrightarrow>
               POST k srv req =
                 (Responded (json 500 [(''error'', Some
                    ''API token is required. Configure it on the server or provide it in the request.'')]),
                  [])))"
proof (intro conjI impI)
  assume a: "get fd ''gemini_api_token'' = Some (FString t) \<and> nonBlank t"
  then have tok: "get fd ''gemini_api_token'' = Some (FString t)" and n: "nonBlank t"
    by simp_all
  from resolve_client_cases [OF n, of k srv]
  consider g m where "GoogleGenerativeAI k t = Inr g" "getGenerativeModel k g modelName = Inr m"
      "resolve k srv (Some (FString t)) = (Resolved g m, [NewClient t, GetModel g modelName])"
    | r cs where "resolve k srv (Some (FString t)) = (Returned r, NewClient t # cs)"
        "\<not> list_ex isGenerate cs"
    | te cs where "resolve k srv (Some (FString t)) = (Thrown te, NewClient t # cs)"
        "\<not> list_ex isGenerate cs"
    by blast
  then show "(\<exists>cs. snd (POST k srv req) = NewClient t # cs)"
    using assms tok by cases (auto simp: POST_def split: prod.splits)
  have "\<exists>g. GoogleGenerativeAI k t = Inr g \<and> getGenerativeModel k g modelName = Inr m'"
    if "GenerateContent m' r \<in> set (snd (POST k srv req))" for m' r
    using resolve_client_cases [OF n, of k srv]
  proof (elim disjE exE conjE)
    fix g m
    assume g: "GoogleGenerativeAI k t = Inr g" "getGenerativeModel k g modelName = Inr m"
      and r: "resolve k srv (Some (FString t)) = (Resolved g m, [NewClient t, GetModel g modelName])"
    obtain x cs' where t: "transcribe k m (get fd ''audio_file'') = (x, cs')"
      by (cases "transcribe k m (get fd ''audio_file'')")
    from that have "GenerateContent m' r \<in> set cs'"
      using assms tok r t by (simp add: POST_def)
    from transcribe_model [OF t this] g show ?thesis by simp
  next
    fix x cs
    assume "resolve k srv (Some (FString t)) = (Returned x, NewClient t # cs)"
      and "\<not> list_ex isGenerate cs"
    with that show ?thesis
      using assms tok by (auto simp: POST_def list_ex_iff)
  next
    fix te cs
    assume "resolve k srv (Some (FString t)) = (Thrown te, NewClient t # cs)"
      and "\<not> list_ex isGenerate cs"
    with that show ?thesis
      using assms tok by (auto simp: POST_def list_ex_iff)
  qed
  then show "\<forall>m r. GenerateContent m r \<in> set (snd (POST k srv req)) \<longrightarrow>
               (\<exists>g. GoogleGenerativeAI k t = Inr g \<and> getGenerativeModel k g modelName = Inr m)"
    by blast
next
  assume b: "get fd ''gemini_api_token'' = None
            \<or> get fd ''gemini_api_token'' = Some (FString t) \<and> \<not> nonBlank t"
  then have f: "get fd ''gemini_api_token'' = None \<or> (\<exists>t. get fd ''gemini_api_token'' = Some (FString t) \<and> \<not> nonBlank t)"
    by blast
  {
    assume d: "genAI srv = Some g0 \<and> model srv = Some m0"
    show p: "POST k srv req =
                 (Responded (fst (transcribe k m0 (get fd ''audio_file''))),
                  snd (transcribe k m0 (get fd ''audio_file'')))"
      using assms d by (simp add: POST_def resolve_fallback [OF f] split: prod.splits)
    show "\<forall>c \<in> set (snd (POST k srv req)). \<exists>r. c = GenerateContent m0 r"
      unfolding p using transcribe_calls [where k = k and m = m0] by auto
  }
  {
    assume d: "genAI srv = None \<or> model srv = None"
    show "POST k srv req =
                 (Responded (json 500 [(''error'', Some
                    ''API token is required. Configure it on the server or provide it in the request.'')]),
                  [])"
      using assms d by (auto simp: POST_def resolve_fallback [OF f] split: option.splits)
  }
qed

text \<open>
  The three cases on the example SDK: a caller's key beside a server default; a key of a
  space and a no-break space, which is blank, beside a server default; and no key
  anywhere.
\<close>

theorem credential_resolution_order_witness:
  "(let req = \<lparr>formData = Inr [(''audio_file'', FFile exampleFile), (''gemini_api_token'', FString keyAbc)]\<rparr>;
        srv = \<lparr>genAI = Some keySrv, model = Some (keySrv, modelName)\<rparr>
    in nonBlank keyAbc
       \<and> snd (POST exampleSdk srv req)
           = [NewClient keyAbc, GetModel keyAbc modelName,
              GenerateContent (keyAbc, modelName) (audioRequest [1, 2, 3])])
   \<and> (let req = \<lparr>formData = Inr [(''audio_file'', FFile exampleFile), (''gemini_api_token'', FString keyBlank)]\<rparr>;
          srv = \<lparr>genAI = Some keySrv, model = Some (keySrv, modelName)\<rparr>
      in \<not> nonBlank keyBlank
         \<and> POST exampleSdk srv req
             = (Responded (json 200 [(''transcription'', Some ''hi there'')]),
                [GenerateContent (keySrv, modelName) (audioRequest [1, 2, 3])]))
   \<and> (let req = \<lparr>formData = Inr [(''audio_file'', FFile exampleFile)]\<rparr>;
          srv = \<lparr>genAI = None, model = None\<rparr>
      in statusOf (fst (POST exampleSdk srv req)) = Some 500 \<and> snd (POST exampleSdk srv req) = [])"
proof -
  let ?fd1 = "[(''audio_file'', FFile exampleFile), (''gemini_api_token'', FString keyAbc)]"
  let ?fd2 = "[(''audio_file'', FFile exampleFile), (''gemini_api_token'', FString keyBlank)]"
  let ?fd3 = "[(''audio_file'', FFile exampleFile)]"
  let ?srv = "\<lparr>genAI = Some keySrv, model = Some (keySrv, modelName)\<rparr>"
  let ?none = "\<lparr>genAI = None :: jsstring option, model = None :: (jsstring \<times> string) option\<rparr>"
  have n1: "nonBlank keyAbc" and n2: "\<not> nonBlank keyBlank"
    by (simp_all add: nonBlank_def trim_def isWhiteSpace_def keyAbc_def keyBlank_def)
  have g1: "get ?fd1 ''gemini_api_token'' = Some (FString keyAbc)"
    and g2: "get ?fd2 ''gemini_api_token'' = Some (FString keyBlank)"
    and g3: "get ?fd3 ''gemini_api_token'' = None"
    by (simp_all add: get_def)
  have a1: "get ?fd1 ''audio_file'' = Some (FFile exampleFile)"
    and a2: "get ?fd2 ''audio_file'' = Some (FFile exampleFile)"
    by (simp_all add: get_def)
  have ks: "keySrv \<noteq> keyDown" "keyAbc \<noteq> keyDown" "keyAbc \<noteq> keyBad"
    by (simp_all add: keySrv_def keyDown_def keyAbc_def keyBad_def)
  have t: "transcribe exampleSdk (keySrv, modelName) (Some (FFile exampleFile))
             = (json 200 [(''transcription'', Some ''hi there'')],
                [GenerateContent (keySrv, modelName) (audioRequest [1, 2, 3])])"
    using ks by (simp add: transcribe_def exampleSdk_def exampleFile_def)
  have c1: "\<exists>cs. snd (POST exampleSdk ?srv \<lparr>formData = Inr ?fd1\<rparr>) = NewClient keyAbc # cs"
    using credential_resolution_order [of "\<lparr>formData = Inr ?fd1\<rparr>" ?fd1 keyAbc exampleSdk ?srv] g1 n1
    by simp
  have c2: "POST exampleSdk ?srv \<lparr>formData = Inr ?fd2\<rparr>
              = (Responded (json 200 [(''transcription'', Some ''hi there'')]),
                 [GenerateContent (keySrv, modelName) (audioRequest [1, 2, 3])])"
    using credential_resolution_order
            [of "\<lparr>formData = Inr ?fd2\<rparr>" ?fd2 keyBlank exampleSdk ?srv keySrv "(keySrv, modelName)"]
          g2 n2 a2 t
    by simp
  have c3: "POST exampleSdk ?none \<lparr>formData = Inr ?fd3\<rparr>
              = (Responded (json 500 [(''error'', Some
                   ''API token is required. Configure it on the server or provide it in the request.'')]), [])"
    using credential_resolution_order [of "\<lparr>formData = Inr ?fd3\<rparr>" ?fd3 "[]" exampleSdk ?none] g3
    by simp
  have e1: "snd (POST exampleSdk ?srv \<lparr>formData = Inr ?fd1\<rparr>)
              = [NewClient keyAbc, GetModel keyAbc modelName,
                 GenerateContent (keyAbc, modelName) (audioRequest [1, 2, 3])]"
    using c1 n1 ks g1 a1
    by (simp add: POST_def resolve_client transcribe_def exampleSdk_def exampleFile_def)
  show ?thesis
    using e1 n1 n2 c2 c3 by (simp add: statusOf_def Let_def)
qed

text \<open>
  Not every request follows that order. When the credential field is a file part,
  \<open>clientToken.trim\<close> is not a function and the call throws before any \<open>try\<close>: no
  client is made from the field, the server's default is not used either, and the
  handler gives no response.
\<close>

theorem credential_resolution_order_counterexample:
  "POST exampleSdk \<lparr>genAI = Some keySrv, model = Some (keySrv, modelName)\<rparr>
     \<lparr>formData = Inr [(''audio_file'', FFile exampleFile),
                      (''gemini_api_token'', FFile exampleFile)]\<rparr>
   = (Unhandled (notAFunction ''clientToken.trim''), [])"
  by (simp add: POST_def resolve_def get_def)

subsection \<open>A request without audio\<close>

text \<open>
  C2. For a request whose body parsed, whose credential field is absent or a string, and
  which has no \<open>audio_file\<close> field: the handler makes no transcription call, and its
  answer has an \<open>error\<close> field; the status is 400 when a non-blank caller's credential
  is present or the server's default exists, and 500 when no credential is available at
  all, because the credential is resolved before the audio is looked at. The handler
  gives no answer only when the construction of the caller's client throws null or
  undefined.
\<close>

theorem missing_audio:
  assumes "formData req = Inr fd"
    and "get fd ''audio_file'' = None"
    and "get fd ''gemini_api_token'' = None \<or> get fd ''gemini_api_token'' = Some (FString t)"
  shows "\<not> list_ex isGenerate (snd (POST k srv req))
         \<and> (case fst (POST k srv req) of
              Responded r \<Rightarrow>
                map_of (body r) ''error'' \<noteq> None
                \<and> status r =
                    (if (get fd ''gemini_api_token'' = Some (FString t) \<and> nonBlank t)
                        \<or> (genAI srv \<noteq> None \<and> model srv \<noteq> None)
                     then 400 else 500)
            | Unhandled e \<Rightarrow>
                get fd ''gemini_api_token'' = Some (FString t) \<and> nonBlank t
                \<and> throwsNullish k t)"
proof (cases "get fd ''gemini_api_token'' = Some (FString t) \<and> nonBlank t")
  case True
  then have tok: "get fd ''gemini_api_token'' = Some (FString t)" and n: "nonBlank t"
    by simp_all
  from resolve_client_cases [OF n, of k srv]
  consider g m where
      "resolve k srv (Some (FString t)) = (Resolved g m, [NewClient t, GetModel g modelName])"
    | r cs where "resolve k srv (Some (FString t)) = (Returned r, NewClient t # cs)"
        "status r = 400" "map_of (body r) ''error'' \<noteq> None" "\<not> list_ex isGenerate cs"
    | te cs where "throwsNullish k t"
        "resolve k srv (Some (FString t)) = (Thrown te, NewClient t # cs)"
        "\<not> list_ex isGenerate cs"
    by blast
  then show ?thesis
    using assms(1,2) tok n
    by cases (simp_all add: POST_def transcribe_None)
next
  case False
  with assms(3) have f: "get fd ''gemini_api_token'' = None
      \<or> (\<exists>t. get fd ''gemini_api_token'' = Some (FString t) \<and> \<not> nonBlank t)"
    by auto
  show ?thesis
    using assms(1,2) False
    by (auto simp: POST_def resolve_fallback [OF f] transcribe_None split: option.splits)
qed

theorem missing_audio_witness:
  "(let fd = [(''gemini_api_token'', FString keyAbc)]
    in get fd ''audio_file'' = None \<and> get fd ''gemini_api_token'' = Some (FString keyAbc)
       \<and> nonBlank keyAbc
       \<and> POST exampleSdk \<lparr>genAI = None, model = None\<rparr> \<lparr>formData = Inr fd\<rparr>
           = (Responded (json 400 [(''error'', Some ''No audio file provided.'')]),
              [NewClient keyAbc, GetModel keyAbc modelName]))"
proof -
  let ?fd = "[(''gemini_api_token'', FString keyAbc)]"
  let ?none = "\<lparr>genAI = None :: jsstring option, model = None :: (jsstring \<times> string) option\<rparr>"
  have n: "nonBlank keyAbc"
    by (simp add: nonBlank_def trim_def isWhiteSpace_def keyAbc_def)
  have ks: "keyAbc \<noteq> keyBad"
    by (simp add: keyAbc_def keyBad_def)
  have g: "get ?fd ''audio_file'' = None" "get ?fd ''gemini_api_token'' = Some (FString keyAbc)"
    by (simp_all add: get_def)
  have "\<not> list_ex isGenerate (snd (POST exampleSdk ?none \<lparr>formData = Inr ?fd\<rparr>))"
    using missing_audio [of "\<lparr>formData = Inr ?fd\<rparr>" ?fd keyAbc exampleSdk ?none] g
    by simp
  then show ?thesis
    using g n ks
    by (simp add: POST_def resolve_client transcribe_def exampleSdk_def)
qed

text \<open>
  With no audio, no caller's credential and no server default, the status is 500, not 400.
\<close>

theorem missing_audio_counterexample:
  "get [] ''audio_file'' = None
   \<and> POST exampleSdk \<lparr>genAI = None, model = None\<rparr> \<lparr>formData = Inr []\<rparr>
       = (Responded \<lparr>status = 500, body = [(''error'',
            ''API token is required. Configure it on the server or provide it in the request.'')]\<rparr>, [])"
  by (simp add: POST_def resolve_def get_def json_def)

subsection \<open>A body that does not parse\<close>

text \<open>
  C3. An exception of parsing the body does not end in a JSON error body:
  \<open>await req.formData()\<close> stands before both \<open>try\<close> blocks, so when it throws,
  the value leaves the handler as it is, no response is built and nothing is called.
\<close>

theorem unparsed_body_propagates:
  "POST k srv \<lparr>formData = Inl e\<rparr> = (Unhandled e, [])"
  by (simp add: POST_def)

section \<open>Properties of the client\<close>

subsection \<open>Auxiliary facts\<close>

lemma join_snoc: "join sep (xs @ [x]) = (if xs = [] then x else join sep xs @ sep @ x)"
  by (induction sep xs rule: join.induct) auto

lemma join_Nil_iff: "\<forall>x \<in> set xs. x \<noteq> [] \<Longrightarrow> join sep xs = [] \<longleftrightarrow> xs = []"
  by (induction sep xs rule: join.induct) auto

lemma rendered_Nil_iff: "rendered log = [] \<longleftrightarrow> log = []"
  by (simp add: rendered_def join_Nil_iff entryLine_def)

lemma rendered_snoc:
  "rendered (log @ [e]) = (if rendered log \<noteq> [] then rendered log @ [CHR 0x0A] @ entryLine e else entryLine e)"
  by (simp add: rendered_Nil_iff) (simp add: rendered_def join_snoc)

lemma newTranscription_text:
  "ok st \<Longrightarrow> map_of kvs ''transcription'' = Some (JStr text) \<Longrightarrow>
   newTranscription (Settled st (Inr (JObj kvs))) = Inr (JStr text)"
  by (simp add: newTranscription_def property_def orElse_def)

lemma newTranscription_failed: "failedCall fr \<Longrightarrow> \<exists>err. newTranscription fr = Inl err"
  by (cases fr rule: failedCall.cases)
     (auto simp: newTranscription_def split: sum.splits)

subsection \<open>The transcript\<close>

text \<open>
  C6. When an ok response carries the transcription \<open>text\<close>, and the string kept by
  the component stands for the log \<open>log\<close>, the string after the continuation stands for
  \<open>appendResult text now log\<close>. For the empty text the string and the length of the log
  are unchanged; for a non-empty text the log has one more entry, the last, made of the
  time of receipt and the text. In both cases no error is set and the status is the
  completion message.
\<close>

theorem transcript_accumulation:
  assumes "ok st" and "map_of kvs ''transcription'' = Some (JStr text)"
    and "transcribedText w = rendered log"
  shows "(let w' = transcriptionSettled (Settled st (Inr (JObj kvs))) now w
          in transcribedText w' = rendered (appendResult text now log)
             \<and> (text = [] \<longrightarrow> transcribedText w' = transcribedText w
                               \<and> length (appendResult text now log) = length log)
             \<and> (text \<noteq> [] \<longrightarrow> appendResult text now log = log @ [(now, text)]
                               \<and> length (appendResult text now log) = length log + 1)
             \<and> errorText w' = errorText w
             \<and> statusText w' = ''Transcription complete. Click to start again.'')"
  using assms
  by (simp add: transcriptionSettled_def newTranscription_text appendResult_def rendered_snoc
        entryLine_def Let_def)

theorem transcript_accumulation_witness:
  "ok 200 \<and> transcribedText initial = rendered []
   \<and> transcribedText
        (transcriptionSettled (Settled 200 (Inr (JObj [(''transcription'', JStr ''hi there'')])))
           ''10:00:00'' initial)
       = ''[10:00:00] hi there''
   \<and> transcribedText
        (transcriptionSettled (Settled 200 (Inr (JObj [(''transcription'', JStr [])])))
           ''10:00:00'' initial)
       = []"
  using transcript_accumulation
          [of 200 "[(''transcription'', JStr ''hi there'')]" "''hi there''" initial "[]" "''10:00:00''"]
        transcript_accumulation
          [of 200 "[(''transcription'', JStr [])]" "[]" initial "[]" "''10:00:00''"]
  by (simp add: ok_def initial_def rendered_def appendResult_def entryLine_def Let_def)

text \<open>
  C8. A transcription call that fails (the fetch rejects, the body does not parse, or the
  response is not ok) leaves the transcript as it was, both when it is sent and when it
  settles, and sets an error message that starts with \<open>Error: \<close>, which is what the
  user is shown.
\<close>

theorem failed_transcription:
  assumes "failedCall fr"
  shows "transcribedText (sendAudioForTranscription tok f w) = transcribedText w
         \<and> (let w' = transcriptionSettled fr now w
            in transcribedText w' = transcribedText w
               \<and> (\<exists>m. errorText w' = ''Error: '' @ m)
               \<and> display w' = ShowsError (errorText w'))"
proof -
  from newTranscription_failed [OF assms] obtain err where "newTranscription fr = Inl err" ..
  then show ?thesis
    by (simp add: transcriptionSettled_def caught_def sendAudioForTranscription_def display_def
          Let_def)
qed

theorem failed_transcription_witness:
  "failedCall (Settled 500 (Inr (JObj [(''error'', JStr ''Failed to transcribe audio.'')])))
   \<and> transcribedText
        (transcriptionSettled
           (Settled 500 (Inr (JObj [(''error'', JStr ''Failed to transcribe audio.'')])))
           ''10:00:00'' initial) = []
   \<and> errorText
        (transcriptionSettled
           (Settled 500 (Inr (JObj [(''error'', JStr ''Failed to transcribe audio.'')])))
           ''10:00:00'' initial) = ''Error: Failed to transcribe audio.''"
  using failed_transcription
          [of "Settled 500 (Inr (JObj [(''error'', JStr ''Failed to transcribe audio.'')]))"
              "[]" exampleFile initial "''10:00:00''"]
  by (simp add: ok_def initial_def transcriptionSettled_def newTranscription_def property_def
        orElse_def caught_def Let_def)

text \<open>
  C10. For an ok response whose body is not null and whose \<open>transcription\<close> is absent
  or falsy (the empty string, null, false, a zero), the continuation does what it does for
  the empty transcription: the transcript and the error are unchanged and the status is
  the completion message.
\<close>

theorem coerced_transcription:
  assumes "ok st" and "property result ''transcription'' = Inr t" and "\<not> truthy t"
  shows "(let w' = transcriptionSettled (Settled st (Inr result)) now w
          in w' = transcriptionSettled
                    (Settled 200 (Inr (JObj [(''transcription'', JStr [])]))) now w
             \<and> transcribedText w' = transcribedText w
             \<and> errorText w' = errorText w
             \<and> statusText w' = ''Transcription complete. Click to start again.'')"
proof -
  have "orElse t (JStr []) = JStr []"
    using assms(3) by (cases t) (auto simp: orElse_def)
  then show ?thesis
    using assms(1,2)
    by (simp add: transcriptionSettled_def newTranscription_def property_def orElse_def ok_def Let_def)
qed

theorem coerced_transcription_witness:
  "ok 200 \<and> property (JObj []) ''transcription'' = Inr None \<and> \<not> truthy None
   \<and> property (JObj [(''transcription'', JNull)]) ''transcription'' = Inr (Some JNull)
   \<and> \<not> truthy (Some JNull)
   \<and> transcribedText (transcriptionSettled (Settled 200 (Inr (JObj []))) ''10:00:00'' initial) = []
   \<and> transcribedText
        (transcriptionSettled (Settled 200 (Inr (JObj [(''transcription'', JNull)])))
           ''10:00:00'' initial) = []"
proof -
  have h: "ok 200"
    by (simp add: ok_def)
  have p1: "property (JObj []) ''transcription'' = Inr None"
    and p2: "property (JObj [(''transcription'', JNull)]) ''transcription'' = Inr (Some JNull)"
    by (simp_all add: property_def)
  have t: "\<not> truthy None" "\<not> truthy (Some JNull)"
    by simp_all
  have i: "transcribedText initial = []"
    by (simp add: initial_def)
  have "transcribedText (transcriptionSettled (Settled 200 (Inr (JObj []))) ''10:00:00'' initial)
          = transcribedText initial"
    using coerced_transcription [OF h p1 t(1), of "''10:00:00''" initial, unfolded Let_def]
    by (elim conjE)
  moreover have "transcribedText
        (transcriptionSettled (Settled 200 (Inr (JObj [(''transcription'', JNull)])))
           ''10:00:00'' initial) = transcribedText initial"
    using coerced_transcription [OF h p2 t(2), of "''10:00:00''" initial, unfolded Let_def]
    by (elim conjE)
  ultimately show ?thesis
    using h p1 p2 t i by simp
qed

text \<open>
  A transcription that is \<open>true\<close> is not a non-empty string, and it is appended.
\<close>

theorem coerced_transcription_counterexample:
  "transcribedText
     (transcriptionSettled (Settled 200 (Inr (JObj [(''transcription'', JBool True)])))
        ''10:00:00'' initial)
   = ''[10:00:00] true''"
  by (simp add: transcriptionSettled_def newTranscription_def property_def orElse_def ok_def
        initial_def)

subsection \<open>A microphone that cannot be used\<close>

text \<open>
  C9. When a pending call of \<open>getUserMedia\<close> rejects, or the recorder cannot be made or
  started on the stream it gave, the component is not listening afterwards, the error
  shown is \<open>Error accessing microphone: \<close> followed by the detail of the failure and
  the advice to check the permission, no fetch is sent and no recorder starts recording.
\<close>

theorem microphone_failure:
  assumes "i < length (awaitingMedia w)"
    and "e = MediaRejected i err \<or> e = MediaResolved i (Some err) start
         \<or> e = MediaResolved i None (Some err)"
  shows "\<exists>w'. step e w = Some w'
           \<and> \<not> isListening w'
           \<and> errorText w' = ''Error accessing microphone: ''
                @ (case err of Error m \<Rightarrow> m | _ \<Rightarrow> ''An unknown error occurred.'')
                @ ''. Please ensure permission is granted.''
           \<and> display w' = ShowsError (errorText w')
           \<and> awaitingFetch w' = awaitingFetch w
           \<and> active w' = active w"
  using assms
  by (auto simp: streamGranted_def microphoneFailed_def display_def active_def Let_def)

theorem microphone_failure_witness:
  "0 < length (awaitingMedia (initial\<lparr>awaitingMedia := [[]]\<rparr>))
   \<and> map_option errorText
        (step (MediaRejected 0 (Error ''Permission denied'')) (initial\<lparr>awaitingMedia := [[]]\<rparr>))
       = Some ''Error accessing microphone: Permission denied. Please ensure permission is granted.''
   \<and> map_option isListening
        (step (MediaRejected 0 (Error ''Permission denied'')) (initial\<lparr>awaitingMedia := [[]]\<rparr>))
       = Some False"
  using microphone_failure
          [of 0 "initial\<lparr>awaitingMedia := [[]]\<rparr>" "MediaRejected 0 (Error ''Permission denied'')"
              "Error ''Permission denied''" None]
  by (simp add: initial_def microphoneFailed_def without_def)

subsection \<open>Runs and sessions\<close>

lemma runWhile_append:
  "runWhile al (es1 @ es2) w = (case runWhile al es1 w of None \<Rightarrow> None | Some w' \<Rightarrow> runWhile al es2 w')"
  by (induction es1 arbitrary: w) (auto split: option.splits)

lemma run_append:
  "run (es1 @ es2) w = (case run es1 w of None \<Rightarrow> None | Some w' \<Rightarrow> run es2 w')"
  unfolding run_def by (rule runWhile_append)

lemma run_Cons: "run (e # es) w = (case step e w of None \<Rightarrow> None | Some w' \<Rightarrow> run es w')"
  unfolding run_def by simp

lemma run_Nil: "run [] w = Some w"
  by (simp add: run_def)

lemma run_fragments:
  "r < length (recorders w) \<Longrightarrow>
   state (recorders w ! r) = recording \<or> stopping (recorders w ! r) \<Longrightarrow>
   run (map (DataAvailable r) ds) w
     = Some (w\<lparr>audioChunksRef := audioChunksRef w @ filter (\<lambda>d. 0 < length d) ds\<rparr>)"
proof (induction ds arbitrary: w)
  case Nil
  then show ?case by (simp add: run_Nil)
next
  case (Cons d ds)
  have s: "step (DataAvailable r d) w = Some (ondataavailable d w)"
    using Cons.prems by simp
  have r: "recorders (ondataavailable d w) = recorders w"
    by (simp add: ondataavailable_def)
  show ?case
    using Cons.IH [of "ondataavailable d w"] Cons.prems
    by (simp del: step.simps add: run_Cons s r) (simp add: ondataavailable_def)
qed

text \<open>The state at the end of a session that starts when the component is not listening.\<close>

lemma session_run:
  assumes "\<not> isListening w"
  shows "run (session w ds1 ds2) w =
     Some (w\<lparr>isListening := False,
             statusText := ''Transcribing audio...'',
             errorText := [],
             mediaRecorderRef := Some (length (recorders w)),
             audioChunksRef := filter (\<lambda>d. 0 < length d) (ds1 @ ds2),
             recorders := recorders w @ [\<lparr>state = inactive, stream = length (trackStops w),
                                          token = geminiApiToken w, stopping = False\<rparr>],
             trackStops := trackStops w @ [1],
             awaitingFetch := awaitingFetch w @
                [[(''audio_file'', FFile \<lparr>name = ''recording.webm'', type = ''audio/webm'',
                                         bytes = concat (filter (\<lambda>d. 0 < length d) (ds1 @ ds2))\<rparr>)]
                 @ (if geminiApiToken w \<noteq> [] then [(''gemini_api_token'', FString (geminiApiToken w))] else [])]\<rparr>)"
proof -
  let ?r = "length (recorders w)"
  let ?k = "length (trackStops w)"
  define wa where "wa = w\<lparr>errorText := [], awaitingMedia := awaitingMedia w @ [geminiApiToken w]\<rparr>"
  define wb where "wb = w\<lparr>errorText := [], 
      recorders := recorders w @ [\<lparr>state = recording, stream = ?k, token = geminiApiToken w, stopping = False\<rparr>],
      trackStops := trackStops w @ [0], mediaRecorderRef := Some ?r, audioChunksRef := [],
      isListening := True, statusText := ''Listening... Click to stop.''\<rparr>"
  define wc where "wc = wb\<lparr>audioChunksRef := filter (\<lambda>d. 0 < length d) ds1\<rparr>"
  define wd where "wd = wc\<lparr>recorders := recorders w @ [\<lparr>state = inactive, stream = ?k, token = geminiApiToken w, stopping = True\<rparr>],
      isListening := False\<rparr>"
  define we where "we = wd\<lparr>audioChunksRef := filter (\<lambda>d. 0 < length d) (ds1 @ ds2)\<rparr>"
  have 1: "step Click w = Some wa"
    using assms by (simp add: handleToggleListen_def wa_def Let_def)
  have 2: "step (MediaResolved (length (awaitingMedia w)) None None) wa = Some wb"
    by (simp add: wa_def wb_def streamGranted_def without_def Let_def)
  have 3: "run (map (DataAvailable ?r) ds1) wb = Some wc"
    using run_fragments [of ?r wb ds1] by (simp add: wb_def wc_def)
  have 4: "step Click wc = Some wd"
    by (simp add: wc_def wb_def wd_def handleToggleListen_def stop_def Let_def)
  have 5: "run (map (DataAvailable ?r) ds2) wd = Some we"
    using run_fragments [of ?r wd ds2] by (simp add: wd_def wc_def wb_def we_def)
  have 6: "step (Stop ?r) we = Some (w\<lparr>isListening := False,
             statusText := ''Transcribing audio...'',
             errorText := [],
             mediaRecorderRef := Some (length (recorders w)),
             audioChunksRef := filter (\<lambda>d. 0 < length d) (ds1 @ ds2),
             recorders := recorders w @ [\<lparr>state = inactive, stream = length (trackStops w),
                                          token = geminiApiToken w, stopping = False\<rparr>],
             trackStops := trackStops w @ [1],
             awaitingFetch := awaitingFetch w @
                [[(''audio_file'', FFile \<lparr>name = ''recording.webm'', type = ''audio/webm'',
                                         bytes = concat (filter (\<lambda>d. 0 < length d) (ds1 @ ds2))\<rparr>)]
                 @ (if geminiApiToken w \<noteq> [] then [(''gemini_api_token'', FString (geminiApiToken w))] else [])]\<rparr>)"
    by (simp add: we_def wd_def wc_def wb_def onstop_def sendAudioForTranscription_def Let_def)
  show ?thesis
    unfolding session_def Let_def
    by (simp del: step.simps add: run_append run_Cons run_Nil 1 2 3 4 5 6)
qed

subsection \<open>One recording at a time\<close>

lemma at_most_one:
  assumes "\<forall>i < length xs. P (xs ! i) \<longrightarrow> i = r"
  shows "length (filter P xs) \<le> 1"
proof -
  have "{i. i < length xs \<and> P (xs ! i)} \<subseteq> {r}"
    using assms by blast
  then have "card {i. i < length xs \<and> P (xs ! i)} \<le> card {r}"
    by (rule card_mono [rotated]) simp
  then show ?thesis
    by (simp add: length_filter_conv_card)
qed

lemma orderly_initial: "orderly initial"
  by (simp add: orderly_def initial_def)

lemma orderlyD:
  assumes "orderly w" and "r < length (recorders w)" and "state (recorders w ! r) = recording"
  shows "mediaRecorderRef w = Some r" and "isListening w" and "awaitingMedia w = []"
  using assms unfolding orderly_def by blast+

lemma orderly_active:
  assumes "orderly w"
  shows "active w \<le> 1"
proof (cases "\<exists>r < length (recorders w). state (recorders w ! r) = recording")
  case True
  then obtain r where r: "mediaRecorderRef w = Some r"
    using orderlyD(1) [OF assms] by blast
  have "\<forall>i < length (recorders w). state (recorders w ! i) = recording \<longrightarrow> i = r"
  proof (intro allI impI)
    fix i assume "i < length (recorders w)" "state (recorders w ! i) = recording"
    from orderlyD(1) [OF assms this] r show "i = r" by simp
  qed
  then show ?thesis
    unfolding active_def by (rule at_most_one)
next
  case False
  then have "\<forall>i < length (recorders w). state (recorders w ! i) = recording \<longrightarrow> i = 0"
    by blast
  then show ?thesis
    unfolding active_def by (rule at_most_one)
qed


lemma orderlyI:
  assumes "length (awaitingMedia w) \<le> 1"
    and "\<And>r. mediaRecorderRef w = Some r \<Longrightarrow> r < length (recorders w)"
    and "\<And>r. r < length (recorders w) \<Longrightarrow> state (recorders w ! r) = recording \<Longrightarrow>
           mediaRecorderRef w = Some r \<and> isListening w \<and> awaitingMedia w = []"
  shows "orderly w"
  using assms unfolding orderly_def by blast

lemma orderly_ref: "orderly w \<Longrightarrow> mediaRecorderRef w = Some r \<Longrightarrow> r < length (recorders w)"
  unfolding orderly_def by blast

lemma orderly_pending: "orderly w \<Longrightarrow> length (awaitingMedia w) \<le> 1"
  unfolding orderly_def by blast

lemma handleToggleListen_start:
  "\<not> isListening w \<Longrightarrow>
   handleToggleListen w = w\<lparr>errorText := [], awaitingMedia := awaitingMedia w @ [geminiApiToken w]\<rparr>"
  by (simp add: handleToggleListen_def Let_def)

lemma handleToggleListen_stop:
  "isListening w \<Longrightarrow> mediaRecorderRef w = Some r \<Longrightarrow> state (recorders w ! r) = recording \<Longrightarrow>
   handleToggleListen w =
     w\<lparr>errorText := [],
       recorders := (recorders w)[r := (recorders w ! r)\<lparr>state := inactive, stopping := True\<rparr>],
       isListening := False\<rparr>"
  by (simp add: handleToggleListen_def stop_def Let_def)

lemma handleToggleListen_idle:
  "isListening w \<Longrightarrow> \<forall>r. mediaRecorderRef w = Some r \<longrightarrow> state (recorders w ! r) \<noteq> recording \<Longrightarrow>
   handleToggleListen w = w\<lparr>errorText := [], isListening := False\<rparr>"
  by (simp add: handleToggleListen_def Let_def split: option.splits)

lemma orderly_Click:
  assumes o: "orderly w" and p: "awaitingMedia w = []"
  shows "orderly (handleToggleListen w)"
proof (cases "isListening w")
  case False
  have none: "\<And>r. r < length (recorders w) \<Longrightarrow> state (recorders w ! r) \<noteq> recording"
    using orderlyD(2) [OF o] False by blast
  show ?thesis
    unfolding handleToggleListen_start [OF False]
    by (rule orderlyI) (simp_all add: p orderly_ref [OF o] none)
next
  case True
  show ?thesis
  proof (cases "\<exists>r. mediaRecorderRef w = Some r \<and> state (recorders w ! r) = recording")
    case True
    then obtain r where r: "mediaRecorderRef w = Some r" "state (recorders w ! r) = recording"
      by blast
    have lt: "r < length (recorders w)"
      by (rule orderly_ref [OF o r(1)])
    have none: "state ((recorders w)[r := (recorders w ! r)\<lparr>state := inactive, stopping := True\<rparr>] ! i)
                  \<noteq> recording" if "i < length (recorders w)" for i
    proof (cases "i = r")
      case True
      then show ?thesis using lt by simp
    next
      case False
      then have "state (recorders w ! i) \<noteq> recording"
        using orderlyD(1) [OF o that] r(1) by auto
      then show ?thesis using False by simp
    qed
    show ?thesis
      unfolding handleToggleListen_stop [OF \<open>isListening w\<close> r]
      by (rule orderlyI) (simp_all add: p r(1) lt none)
  next
    case False
    then have f: "\<forall>r. mediaRecorderRef w = Some r \<longrightarrow> state (recorders w ! r) \<noteq> recording"
      by blast
    have none: "\<And>r. r < length (recorders w) \<Longrightarrow> state (recorders w ! r) \<noteq> recording"
      using orderlyD(1) [OF o] f by blast
    show ?thesis
      unfolding handleToggleListen_idle [OF True f]
      by (rule orderlyI) (simp_all add: p orderly_ref [OF o] none)
  qed
qed


lemma streamGranted_ok:
  "streamGranted tok None None w =
     w\<lparr>trackStops := trackStops w @ [0],
       recorders := recorders w
         @ [\<lparr>state = recording, stream = length (trackStops w), token = tok, stopping = False\<rparr>],
       mediaRecorderRef := Some (length (recorders w)),
       audioChunksRef := [],
       isListening := True,
       statusText := ''Listening... Click to stop.''\<rparr>"
  by (simp add: streamGranted_def Let_def)

lemma streamGranted_ctor:
  "streamGranted tok (Some e) start w = microphoneFailed e (w\<lparr>trackStops := trackStops w @ [0]\<rparr>)"
  by (simp add: streamGranted_def Let_def)

lemma streamGranted_start:
  "streamGranted tok None (Some e) w =
     microphoneFailed e
       (w\<lparr>trackStops := trackStops w @ [0],
          recorders := recorders w
            @ [\<lparr>state = inactive, stream = length (trackStops w), token = tok, stopping = False\<rparr>],
          mediaRecorderRef := Some (length (recorders w)),
          audioChunksRef := []\<rparr>)"
  by (simp add: streamGranted_def Let_def)

lemma microphoneFailed_fields:
  "recorders (microphoneFailed e w) = recorders w"
  "trackStops (microphoneFailed e w) = trackStops w"
  "mediaRecorderRef (microphoneFailed e w) = mediaRecorderRef w"
  "awaitingMedia (microphoneFailed e w) = awaitingMedia w"
  "awaitingFetch (microphoneFailed e w) = awaitingFetch w"
  "isListening (microphoneFailed e w) = False"
  by (simp_all add: microphoneFailed_def Let_def)

lemma onstop_fields:
  "recorders (onstop r w) = recorders w"
  "mediaRecorderRef (onstop r w) = mediaRecorderRef w"
  "awaitingMedia (onstop r w) = awaitingMedia w"
  "isListening (onstop r w) = isListening w"
  "trackStops (onstop r w) =
     (trackStops w)[stream (recorders w ! r) := Suc (trackStops w ! stream (recorders w ! r))]"
  by (simp_all add: onstop_def sendAudioForTranscription_def Let_def)

lemma transcriptionSettled_fields:
  "recorders (transcriptionSettled fr now w) = recorders w"
  "mediaRecorderRef (transcriptionSettled fr now w) = mediaRecorderRef w"
  "awaitingMedia (transcriptionSettled fr now w) = awaitingMedia w"
  "isListening (transcriptionSettled fr now w) = isListening w"
  "trackStops (transcriptionSettled fr now w) = trackStops w"
  by (simp_all add: transcriptionSettled_def caught_def Let_def split: sum.splits)

lemma ondataavailable_fields:
  "recorders (ondataavailable d w) = recorders w"
  "mediaRecorderRef (ondataavailable d w) = mediaRecorderRef w"
  "awaitingMedia (ondataavailable d w) = awaitingMedia w"
  "isListening (ondataavailable d w) = isListening w"
  "trackStops (ondataavailable d w) = trackStops w"
  by (simp_all add: ondataavailable_def)

lemma without_single: "length xs \<le> 1 \<Longrightarrow> i < length xs \<Longrightarrow> without i xs = []"
  by (simp add: without_def)

lemma orderly_settled:
  assumes o: "orderly w" and i: "i < length (awaitingMedia w)"
  shows "without i (awaitingMedia w) = []"
    and "\<And>r. r < length (recorders w) \<Longrightarrow> state (recorders w ! r) \<noteq> recording"
proof -
  show "without i (awaitingMedia w) = []"
    by (rule without_single [OF orderly_pending [OF o] i])
  fix r assume "r < length (recorders w)"
  then show "state (recorders w ! r) \<noteq> recording"
    using orderlyD(3) [OF o, of r] i by auto
qed

lemma orderly_MediaResolved:
  assumes o: "orderly w" and i: "i < length (awaitingMedia w)"
  shows "orderly (streamGranted tok ctor start (w\<lparr>awaitingMedia := without i (awaitingMedia w)\<rparr>))"
proof -
  note e = orderly_settled(1) [OF o i]
  note none = orderly_settled(2) [OF o i]
  show ?thesis
  proof (cases ctor)
    case (Some err)
    show ?thesis
      unfolding Some streamGranted_ctor
      by (rule orderlyI) (simp_all add: microphoneFailed_fields e orderly_ref [OF o] none)
  next
    case None
    show ?thesis
    proof (cases start)
      case (Some err)
      have none': "state ((recorders w
            @ [\<lparr>state = inactive, stream = length (trackStops w), token = tok, stopping = False\<rparr>]) ! r)
          \<noteq> recording" if "r < Suc (length (recorders w))" for r
        using that none [of r] by (cases "r < length (recorders w)") (simp_all add: nth_append)
      show ?thesis
        unfolding None Some streamGranted_start
        by (rule orderlyI) (simp_all add: microphoneFailed_fields e none')
    next
      case None
      have only: "length (recorders w) = r"
        if "r < Suc (length (recorders w))"
          and "state ((recorders w
            @ [\<lparr>state = recording, stream = length (trackStops w), token = tok, stopping = False\<rparr>]) ! r)
            = recording" for r
        using that none [of r] by (cases "r < length (recorders w)") (simp_all add: nth_append)
      show ?thesis
        unfolding \<open>ctor = None\<close> None streamGranted_ok
        by (rule orderlyI) (simp_all add: e only)
    qed
  qed
qed

lemma orderly_MediaRejected:
  assumes o: "orderly w" and i: "i < length (awaitingMedia w)"
  shows "orderly (microphoneFailed err (w\<lparr>awaitingMedia := without i (awaitingMedia w)\<rparr>))"
  by (rule orderlyI)
     (simp_all add: microphoneFailed_fields orderly_settled [OF o i] orderly_ref [OF o])

lemma orderly_same:
  assumes o: "orderly w"
    and "awaitingMedia w' = awaitingMedia w" and "mediaRecorderRef w' = mediaRecorderRef w"
    and "isListening w' = isListening w" and "length (recorders w') = length (recorders w)"
    and "\<And>r. r < length (recorders w) \<Longrightarrow> state (recorders w' ! r) = recording \<Longrightarrow>
           state (recorders w ! r) = recording"
  shows "orderly w'"
proof (rule orderlyI)
  show "length (awaitingMedia w') \<le> 1"
    using assms(2) orderly_pending [OF o] by simp
  show "r < length (recorders w')" if "mediaRecorderRef w' = Some r" for r
    using that assms(3,5) orderly_ref [OF o, of r] by simp
  show "mediaRecorderRef w' = Some r \<and> isListening w' \<and> awaitingMedia w' = []"
    if "r < length (recorders w')" "state (recorders w' ! r) = recording" for r
  proof -
    have "r < length (recorders w)" "state (recorders w ! r) = recording"
      using that assms(5,6) by simp_all
    from orderlyD [OF o this] show ?thesis
      using assms(2,3,4) by simp
  qed
qed


lemma state_after_stop:
  "state (xs[r := (xs ! r)\<lparr>state := inactive, stopping := b\<rparr>] ! i) = recording \<Longrightarrow>
   state (xs ! i) = recording"
  by (cases "r < length xs") (simp_all add: nth_list_update list_update_beyond split: if_splits)

lemma state_after_flag:
  "state (xs[r := (xs ! r)\<lparr>stopping := b\<rparr>] ! i) = state (xs ! i)"
  by (cases "r < length xs") (simp_all add: nth_list_update list_update_beyond)

lemma orderly_ondataavailable: "orderly w \<Longrightarrow> orderly (ondataavailable d w)"
  by (erule orderly_same) (simp_all add: ondataavailable_fields)

lemma orderly_stop: "orderly w \<Longrightarrow> orderly (stop r w)"
proof (erule orderly_same)
  fix i assume "state (recorders (stop r w) ! i) = recording"
  then show "state (recorders w ! i) = recording"
    unfolding stop_def by (simp add: state_after_stop [of "recorders w" r True i])
qed (simp_all add: stop_def)

lemma orderly_onstop:
  "orderly w \<Longrightarrow>
   orderly (onstop r (w\<lparr>recorders := (recorders w)[r := (recorders w ! r)\<lparr>stopping := False\<rparr>]\<rparr>))"
  by (erule orderly_same) (simp_all add: onstop_fields state_after_flag)

lemma orderly_transcriptionSettled:
  "orderly w \<Longrightarrow> orderly (transcriptionSettled fr now (w\<lparr>awaitingFetch := fs\<rparr>))"
  by (erule orderly_same) (simp_all add: transcriptionSettled_fields)

lemma orderly_Input: "orderly w \<Longrightarrow> orderly (w\<lparr>geminiApiToken := t\<rparr>)"
  by (erule orderly_same) simp_all

lemma orderly_step:
  assumes o: "orderly w" and p: "patient e w" and s: "step e w = Some w'"
  shows "orderly w'"
proof (cases e)
  case Click
  with s p have "w' = handleToggleListen w" "awaitingMedia w = []"
    by simp_all
  then show ?thesis
    using orderly_Click [OF o] by simp
next
  case (Input t)
  with s have w': "w' = w\<lparr>geminiApiToken := t\<rparr>"
    by simp
  show ?thesis
    unfolding w' by (rule orderly_Input [OF o])
next
  case (MediaResolved i ctor start)
  with s have i: "i < length (awaitingMedia w)"
    and w': "w' = streamGranted (awaitingMedia w ! i) ctor start
                    (w\<lparr>awaitingMedia := without i (awaitingMedia w)\<rparr>)"
    by (simp_all split: if_splits)
  show ?thesis
    unfolding w' by (rule orderly_MediaResolved [OF o i])
next
  case (MediaRejected i err)
  with s have i: "i < length (awaitingMedia w)"
    and w': "w' = microphoneFailed err (w\<lparr>awaitingMedia := without i (awaitingMedia w)\<rparr>)"
    by (simp_all split: if_splits)
  show ?thesis
    unfolding w' by (rule orderly_MediaRejected [OF o i])
next
  case (DataAvailable r d)
  with s have w': "w' = ondataavailable d w"
    by (simp split: if_splits)
  show ?thesis
    unfolding w' by (rule orderly_ondataavailable [OF o])
next
  case (TrackEnded r)
  with s have w': "w' = stop r w"
    by (simp split: if_splits)
  show ?thesis
    unfolding w' by (rule orderly_stop [OF o])
next
  case (Stop r)
  with s have w': "w' = onstop r
                   (w\<lparr>recorders := (recorders w)[r := (recorders w ! r)\<lparr>stopping := False\<rparr>]\<rparr>)"
    by (simp split: if_splits)
  show ?thesis
    unfolding w' by (rule orderly_onstop [OF o])
next
  case (FetchSettled i fr now)
  with s have w': "w' = transcriptionSettled fr now (w\<lparr>awaitingFetch := without i (awaitingFetch w)\<rparr>)"
    by (simp split: if_splits)
  show ?thesis
    unfolding w' by (rule orderly_transcriptionSettled [OF o])
qed

lemma runWhile_Cons_Some:
  assumes "runWhile al (e # es) w = Some w'"
  obtains w1 where "al e w" and "step e w = Some w1" and "runWhile al es w1 = Some w'"
  using assms by (cases "al e w"; cases "step e w") simp_all

lemma orderly_run:
  "orderly w \<Longrightarrow> runWhile patient es w = Some w' \<Longrightarrow> orderly w'"
proof (induction es arbitrary: w)
  case Nil
  then show ?case by simp
next
  case (Cons e es)
  from Cons.prems(2) obtain w1 where 1: "patient e w" "step e w = Some w1"
    and 2: "runWhile patient es w1 = Some w'"
    by (rule runWhile_Cons_Some)
  from Cons.IH [OF orderly_step [OF Cons.prems(1) 1] 2] show ?case .
qed

lemma toggle_while_listening:
  assumes "isListening w"
  shows "awaitingMedia (handleToggleListen w) = awaitingMedia w"
    and "length (recorders (handleToggleListen w)) = length (recorders w)"
    and "length (trackStops (handleToggleListen w)) = length (trackStops w)"
    and "r < length (recorders w) \<Longrightarrow> state (recorders (handleToggleListen w) ! r) = recording
         \<Longrightarrow> state (recorders w ! r) = recording"
proof -
  show "awaitingMedia (handleToggleListen w) = awaitingMedia w"
    and "length (recorders (handleToggleListen w)) = length (recorders w)"
    and "length (trackStops (handleToggleListen w)) = length (trackStops w)"
    using assms
    by (simp_all add: handleToggleListen_def stop_def Let_def split: option.splits)
  assume r: "r < length (recorders w)"
    and s: "state (recorders (handleToggleListen w) ! r) = recording"
  show "state (recorders w ! r) = recording"
  proof (cases "\<exists>x. mediaRecorderRef w = Some x \<and> state (recorders w ! x) = recording")
    case True
    then obtain x where x: "mediaRecorderRef w = Some x" "state (recorders w ! x) = recording"
      by blast
    show ?thesis
      using s r unfolding handleToggleListen_stop [OF assms x]
      by (cases "r = x") simp_all
  next
    case False
    then have f: "\<forall>r. mediaRecorderRef w = Some r \<longrightarrow> state (recorders w ! r) \<noteq> recording"
      by blast
    show ?thesis
      using s unfolding handleToggleListen_idle [OF assms f] by simp
  qed
qed


text \<open>
  Pressing the button while the component is listening never starts anything: no call of
  \<open>getUserMedia\<close> is made, no stream is acquired, no recorder is made, and no recorder
  that was not recording starts to record. And in every state reached from the initial
  one by a run in which the button is not pressed while a call of \<open>getUserMedia\<close> is
  pending, at most one recorder is recording.
\<close>

lemma toggle_and_patient_runs:
  "(isListening w \<longrightarrow>
      step Click w = Some (handleToggleListen w)
      \<and> awaitingMedia (handleToggleListen w) = awaitingMedia w
      \<and> length (recorders (handleToggleListen w)) = length (recorders w)
      \<and> length (trackStops (handleToggleListen w)) = length (trackStops w)
      \<and> (\<forall>r < length (recorders w).
            state (recorders (handleToggleListen w) ! r) = recording \<longrightarrow>
            state (recorders w ! r) = recording))
   \<and> (runWhile patient es initial = Some w \<longrightarrow> active w \<le> 1)"
proof (intro conjI impI allI)
  assume "runWhile patient es initial = Some w"
  from orderly_run [OF orderly_initial this] show "active w \<le> 1"
    by (rule orderly_active)
qed (simp_all add: toggle_while_listening)

text \<open>
  C4. More than one recording can be under way. The handler reads \<open>isListening\<close>, which
  becomes true only when \<open>getUserMedia\<close> has resolved; the button pressed twice before
  that makes two calls, and when both are granted two recorders record at once, each on
  its own stream. The ref names the second recorder only: the next press stops that one,
  the component is then not listening, and the first recorder still records.
\<close>

theorem two_recordings_at_once:
  "map_option active
     (run [Click, Click, MediaResolved 0 None None, MediaResolved 0 None None] initial)
   = Some 2
   \<and> map_option mediaRecorderRef
       (run [Click, Click, MediaResolved 0 None None, MediaResolved 0 None None] initial)
     = Some (Some 1)
   \<and> map_option (\<lambda>w. (isListening w, active w))
       (run [Click, Click, MediaResolved 0 None None, MediaResolved 0 None None, Click] initial)
     = Some (False, 1)"
  by (simp add: run_def initial_def handleToggleListen_def streamGranted_def without_def
        stop_def active_def Let_def)

subsection \<open>Streams are released once\<close>

lemma consistentI:
  assumes "\<And>r. mediaRecorderRef w = Some r \<Longrightarrow> r < length (recorders w)"
    and "distinct (map stream (recorders w))"
    and "\<And>r. r < length (recorders w) \<Longrightarrow> stream (recorders w ! r) < length (trackStops w)"
    and "\<And>r. r < length (recorders w) \<Longrightarrow> stopping (recorders w ! r) \<Longrightarrow>
           state (recorders w ! r) \<noteq> recording"
    and "\<And>r. r < length (recorders w) \<Longrightarrow>
           state (recorders w ! r) = recording \<or> stopping (recorders w ! r) \<Longrightarrow>
           trackStops w ! stream (recorders w ! r) = 0"
    and "\<And>k. k < length (trackStops w) \<Longrightarrow> trackStops w ! k \<le> 1"
  shows "consistent w"
  using assms unfolding consistent_def by blast

lemma consistentD:
  assumes "consistent w"
  shows "mediaRecorderRef w = Some r \<Longrightarrow> r < length (recorders w)"
    and "distinct (map stream (recorders w))"
    and "r < length (recorders w) \<Longrightarrow> stream (recorders w ! r) < length (trackStops w)"
    and "r < length (recorders w) \<Longrightarrow> stopping (recorders w ! r) \<Longrightarrow>
           state (recorders w ! r) \<noteq> recording"
    and "r < length (recorders w) \<Longrightarrow>
           state (recorders w ! r) = recording \<or> stopping (recorders w ! r) \<Longrightarrow>
           trackStops w ! stream (recorders w ! r) = 0"
    and "k < length (trackStops w) \<Longrightarrow> trackStops w ! k \<le> 1"
  using assms unfolding consistent_def by blast+

lemma consistent_same:
  "consistent w \<Longrightarrow> mediaRecorderRef w' = mediaRecorderRef w \<Longrightarrow>
   recorders w' = recorders w \<Longrightarrow> trackStops w' = trackStops w \<Longrightarrow> consistent w'"
  by (simp add: consistent_def)

lemma consistent_initial: "consistent initial"
  by (simp add: consistent_def initial_def)

lemma map_stream_update:
  "stream x = stream (xs ! r) \<Longrightarrow> map stream (xs[r := x]) = map stream xs"
  by (cases "r < length xs") (simp_all add: map_update list_update_beyond list_update_same_conv)

lemma consistent_stopped:
  assumes c: "consistent w" and r: "r < length (recorders w)"
    and s: "state (recorders w ! r) = recording"
  shows "consistent (w\<lparr>recorders :=
           (recorders w)[r := (recorders w ! r)\<lparr>state := inactive, stopping := True\<rparr>]\<rparr>)"
proof -
  define xs where "xs = (recorders w)[r := (recorders w ! r)\<lparr>state := inactive, stopping := True\<rparr>]"
  have len: "length xs = length (recorders w)"
    by (simp add: xs_def)
  have at_r: "xs ! r = (recorders w ! r)\<lparr>state := inactive, stopping := True\<rparr>"
    using r by (simp add: xs_def)
  have other: "xs ! i = recorders w ! i" if "i \<noteq> r" for i
    using that by (simp add: xs_def)
  have str: "stream (xs ! i) = stream (recorders w ! i)" for i
    by (cases "i = r") (simp_all add: at_r other)
  have ms: "map stream xs = map stream (recorders w)"
    unfolding xs_def by (rule map_stream_update) simp
  have "consistent (w\<lparr>recorders := xs\<rparr>)"
  proof (rule consistentI)
    fix i assume "mediaRecorderRef (w\<lparr>recorders := xs\<rparr>) = Some i"
    then have "mediaRecorderRef w = Some i" by simp
    from consistentD(1) [OF c this] show "i < length (recorders (w\<lparr>recorders := xs\<rparr>))"
      by (simp add: len)
  next
    show "distinct (map stream (recorders (w\<lparr>recorders := xs\<rparr>)))"
      using consistentD(2) [OF c] by (simp add: ms)
  next
    fix i assume "i < length (recorders (w\<lparr>recorders := xs\<rparr>))"
    then have i: "i < length (recorders w)" by (simp add: len)
    from consistentD(3) [OF c i]
    show "stream (recorders (w\<lparr>recorders := xs\<rparr>) ! i) < length (trackStops (w\<lparr>recorders := xs\<rparr>))"
      by (simp add: str)
  next
    fix i assume "i < length (recorders (w\<lparr>recorders := xs\<rparr>))"
      and st: "stopping (recorders (w\<lparr>recorders := xs\<rparr>) ! i)"
    then have i: "i < length (recorders w)" by (simp add: len)
    show "state (recorders (w\<lparr>recorders := xs\<rparr>) ! i) \<noteq> recording"
    proof (cases "i = r")
      case True
      then show ?thesis by (simp add: at_r)
    next
      case False
      with st have "stopping (recorders w ! i)" by (simp add: other)
      from consistentD(4) [OF c i this] False show ?thesis by (simp add: other)
    qed
  next
    fix i assume "i < length (recorders (w\<lparr>recorders := xs\<rparr>))"
      and st: "state (recorders (w\<lparr>recorders := xs\<rparr>) ! i) = recording
               \<or> stopping (recorders (w\<lparr>recorders := xs\<rparr>) ! i)"
    then have i: "i < length (recorders w)" by (simp add: len)
    have "state (recorders w ! i) = recording \<or> stopping (recorders w ! i)"
    proof (cases "i = r")
      case True
      then show ?thesis using s by simp
    next
      case False
      with st show ?thesis by (simp add: other)
    qed
    from consistentD(5) [OF c i this]
    show "trackStops (w\<lparr>recorders := xs\<rparr>) ! stream (recorders (w\<lparr>recorders := xs\<rparr>) ! i) = 0"
      by (simp add: str)
  next
    fix k assume "k < length (trackStops (w\<lparr>recorders := xs\<rparr>))"
    then have "k < length (trackStops w)" by simp
    from consistentD(6) [OF c this] show "trackStops (w\<lparr>recorders := xs\<rparr>) ! k \<le> 1"
      by simp
  qed
  then show ?thesis
    by (simp add: xs_def)
qed

lemma consistent_Click:
  assumes c: "consistent w"
  shows "consistent (handleToggleListen w)"
proof (cases "isListening w")
  case False
  show ?thesis
    unfolding handleToggleListen_start [OF False] by (rule consistent_same [OF c]) simp_all
next
  case True
  show ?thesis
  proof (cases "\<exists>r. mediaRecorderRef w = Some r \<and> state (recorders w ! r) = recording")
    case True
    then obtain r where r: "mediaRecorderRef w = Some r" "state (recorders w ! r) = recording"
      by blast
    have "consistent (w\<lparr>recorders :=
            (recorders w)[r := (recorders w ! r)\<lparr>state := inactive, stopping := True\<rparr>]\<rparr>)"
      by (rule consistent_stopped [OF c consistentD(1) [OF c r(1)] r(2)])
    then show ?thesis
      unfolding handleToggleListen_stop [OF \<open>isListening w\<close> r]
      by (rule consistent_same) simp_all
  next
    case False
    then have f: "\<forall>r. mediaRecorderRef w = Some r \<longrightarrow> state (recorders w ! r) \<noteq> recording"
      by blast
    show ?thesis
      unfolding handleToggleListen_idle [OF True f] by (rule consistent_same [OF c]) simp_all
  qed
qed

lemma consistent_stop:
  "consistent w \<Longrightarrow> r < length (recorders w) \<Longrightarrow> state (recorders w ! r) = recording \<Longrightarrow>
   consistent (stop r w)"
  unfolding stop_def by (rule consistent_stopped)

lemma consistent_recorder:
  assumes c: "consistent w"
  shows "consistent
           (w\<lparr>trackStops := trackStops w @ [0],
              recorders := recorders w
                @ [\<lparr>state = st, stream = length (trackStops w), token = tok, stopping = False\<rparr>],
              mediaRecorderRef := Some (length (recorders w))\<rparr>)"
proof -
  define new where "new = \<lparr>state = st, stream = length (trackStops w), token = tok, stopping = False\<rparr>"
  define w' where "w' = w\<lparr>trackStops := trackStops w @ [0], recorders := recorders w @ [new],
                          mediaRecorderRef := Some (length (recorders w))\<rparr>"
  have rec: "recorders w' = recorders w @ [new]" and ts: "trackStops w' = trackStops w @ [0]"
    and ref: "mediaRecorderRef w' = Some (length (recorders w))"
    by (simp_all add: w'_def)
  have old: "recorders w' ! i = recorders w ! i" if "i < length (recorders w)" for i
    using that by (simp add: rec nth_append)
  have last: "recorders w' ! length (recorders w) = new"
    by (simp add: rec)
  have new_fields: "stream new = length (trackStops w)" "\<not> stopping new"
    by (simp_all add: new_def)
  have split: "i < length (recorders w) \<or> i = length (recorders w)" if "i < length (recorders w')" for i
    using that by (simp add: rec less_Suc_eq)
  have tsold: "trackStops w' ! k = trackStops w ! k" if "k < length (trackStops w)" for k
    using that by (simp add: ts nth_append)
  have tsnew: "trackStops w' ! length (trackStops w) = 0"
    by (simp add: ts)
  have fresh: "length (trackStops w) \<notin> set (map stream (recorders w))"
  proof
    assume "length (trackStops w) \<in> set (map stream (recorders w))"
    then obtain i where i: "i < length (map stream (recorders w))"
      and e: "map stream (recorders w) ! i = length (trackStops w)"
      unfolding in_set_conv_nth by blast
    from i have i': "i < length (recorders w)" by simp
    from e i' have "stream (recorders w ! i) = length (trackStops w)" by simp
    with consistentD(3) [OF c i'] show False by simp
  qed
  have "consistent w'"
  proof (rule consistentI)
    fix i assume "mediaRecorderRef w' = Some i"
    then show "i < length (recorders w')" by (simp add: ref rec)
  next
    show "distinct (map stream (recorders w'))"
      using consistentD(2) [OF c] fresh by (simp add: rec new_fields)
  next
    fix i assume "i < length (recorders w')"
    from split [OF this] show "stream (recorders w' ! i) < length (trackStops w')"
    proof
      assume i: "i < length (recorders w)"
      from consistentD(3) [OF c i] show ?thesis by (simp add: old [OF i] ts)
    next
      assume "i = length (recorders w)"
      then show ?thesis by (simp add: last new_fields ts)
    qed
  next
    fix i assume "i < length (recorders w')" and st: "stopping (recorders w' ! i)"
    from split [OF this(1)] show "state (recorders w' ! i) \<noteq> recording"
    proof
      assume i: "i < length (recorders w)"
      from st have "stopping (recorders w ! i)" by (simp add: old [OF i])
      from consistentD(4) [OF c i this] show ?thesis by (simp add: old [OF i])
    next
      assume "i = length (recorders w)"
      with st show ?thesis by (simp add: last new_fields)
    qed
  next
    fix i assume "i < length (recorders w')"
      and st: "state (recorders w' ! i) = recording \<or> stopping (recorders w' ! i)"
    from split [OF this(1)] show "trackStops w' ! stream (recorders w' ! i) = 0"
    proof
      assume i: "i < length (recorders w)"
      from st have "state (recorders w ! i) = recording \<or> stopping (recorders w ! i)"
        by (simp add: old [OF i])
      from consistentD(5) [OF c i this] tsold [OF consistentD(3) [OF c i]]
      show ?thesis by (simp add: old [OF i])
    next
      assume "i = length (recorders w)"
      then show ?thesis by (simp add: last new_fields tsnew)
    qed
  next
    fix k assume "k < length (trackStops w')"
    then have "k < length (trackStops w) \<or> k = length (trackStops w)"
      by (simp add: ts less_Suc_eq)
    then show "trackStops w' ! k \<le> 1"
    proof
      assume k: "k < length (trackStops w)"
      from consistentD(6) [OF c k] show ?thesis by (simp add: tsold [OF k])
    next
      assume "k = length (trackStops w)"
      then show ?thesis by (simp add: tsnew)
    qed
  qed
  then show ?thesis
    by (simp add: w'_def new_def)
qed

lemma consistent_stream:
  assumes c: "consistent w"
  shows "consistent (w\<lparr>trackStops := trackStops w @ [0]\<rparr>)"
proof (rule consistentI)
  let ?w = "w\<lparr>trackStops := trackStops w @ [0]\<rparr>"
  fix i assume "mediaRecorderRef ?w = Some i"
  then have "mediaRecorderRef w = Some i" by simp
  from consistentD(1) [OF c this] show "i < length (recorders ?w)" by simp
next
  show "distinct (map stream (recorders (w\<lparr>trackStops := trackStops w @ [0]\<rparr>)))"
    using consistentD(2) [OF c] by simp
next
  let ?w = "w\<lparr>trackStops := trackStops w @ [0]\<rparr>"
  fix i assume "i < length (recorders ?w)"
  then have i: "i < length (recorders w)" by simp
  from consistentD(3) [OF c i] show "stream (recorders ?w ! i) < length (trackStops ?w)" by simp
next
  let ?w = "w\<lparr>trackStops := trackStops w @ [0]\<rparr>"
  fix i assume "i < length (recorders ?w)" and st: "stopping (recorders ?w ! i)"
  then have i: "i < length (recorders w)" and st': "stopping (recorders w ! i)" by simp_all
  from consistentD(4) [OF c i st'] show "state (recorders ?w ! i) \<noteq> recording" by simp
next
  let ?w = "w\<lparr>trackStops := trackStops w @ [0]\<rparr>"
  fix i assume "i < length (recorders ?w)"
    and st: "state (recorders ?w ! i) = recording \<or> stopping (recorders ?w ! i)"
  then have i: "i < length (recorders w)"
    and st': "state (recorders w ! i) = recording \<or> stopping (recorders w ! i)" by simp_all
  from consistentD(5) [OF c i st'] consistentD(3) [OF c i]
  show "trackStops ?w ! stream (recorders ?w ! i) = 0" by (simp add: nth_append)
next
  let ?w = "w\<lparr>trackStops := trackStops w @ [0]\<rparr>"
  fix k assume "k < length (trackStops ?w)"
  then have "k < length (trackStops w) \<or> k = length (trackStops w)"
    by (simp add: less_Suc_eq)
  then show "trackStops ?w ! k \<le> 1"
  proof
    assume k: "k < length (trackStops w)"
    from consistentD(6) [OF c k] show ?thesis using k by (simp add: nth_append)
  next
    assume "k = length (trackStops w)"
    then show ?thesis by simp
  qed
qed

lemma consistent_onstop:
  assumes c: "consistent w" and r: "r < length (recorders w)"
    and s: "stopping (recorders w ! r)"
  shows "consistent
           (onstop r (w\<lparr>recorders := (recorders w)[r := (recorders w ! r)\<lparr>stopping := False\<rparr>]\<rparr>))"
proof -
  define xs where "xs = (recorders w)[r := (recorders w ! r)\<lparr>stopping := False\<rparr>]"
  define k where "k = stream (recorders w ! r)"
  define ts where "ts = (trackStops w)[k := Suc (trackStops w ! k)]"
  define w' where "w' = onstop r (w\<lparr>recorders := xs\<rparr>)"
  have len: "length xs = length (recorders w)"
    by (simp add: xs_def)
  have at_r: "xs ! r = (recorders w ! r)\<lparr>stopping := False\<rparr>"
    using r by (simp add: xs_def)
  have other: "xs ! i = recorders w ! i" if "i \<noteq> r" for i
    using that by (simp add: xs_def)
  have str: "stream (xs ! i) = stream (recorders w ! i)" for i
    by (cases "i = r") (simp_all add: at_r other)
  have ms: "map stream xs = map stream (recorders w)"
    unfolding xs_def by (rule map_stream_update) simp
  have rec: "recorders w' = xs" and ref: "mediaRecorderRef w' = mediaRecorderRef w"
    by (simp_all add: w'_def onstop_fields)
  have tr: "trackStops w' = ts"
    by (simp add: w'_def onstop_fields ts_def k_def str)
  have klt: "k < length (trackStops w)"
    unfolding k_def by (rule consistentD(3) [OF c r])
  have k0: "trackStops w ! k = 0"
    unfolding k_def using consistentD(5) [OF c r] s by simp
  have notrec: "state (recorders w ! r) \<noteq> recording"
    by (rule consistentD(4) [OF c r s])
  have tsk: "ts ! k = 1"
    using klt k0 by (simp add: ts_def)
  have tso: "ts ! j = trackStops w ! j" if "j \<noteq> k" for j
    using that by (simp add: ts_def)
  have lts: "length ts = length (trackStops w)"
    by (simp add: ts_def)
  have "consistent w'"
  proof (rule consistentI)
    fix i assume "mediaRecorderRef w' = Some i"
    then have "mediaRecorderRef w = Some i" by (simp add: ref)
    from consistentD(1) [OF c this] show "i < length (recorders w')"
      by (simp add: rec len)
  next
    show "distinct (map stream (recorders w'))"
      using consistentD(2) [OF c] by (simp add: rec ms)
  next
    fix i assume "i < length (recorders w')"
    then have i: "i < length (recorders w)" by (simp add: rec len)
    from consistentD(3) [OF c i] show "stream (recorders w' ! i) < length (trackStops w')"
      by (simp add: rec str tr lts)
  next
    fix i assume "i < length (recorders w')" and st: "stopping (recorders w' ! i)"
    then have i: "i < length (recorders w)" by (simp add: rec len)
    have ne: "i \<noteq> r"
      using st by (auto simp: rec at_r)
    with st have "stopping (recorders w ! i)" by (simp add: rec other)
    from consistentD(4) [OF c i this] show "state (recorders w' ! i) \<noteq> recording"
      using ne by (simp add: rec other)
  next
    fix i assume "i < length (recorders w')"
      and st: "state (recorders w' ! i) = recording \<or> stopping (recorders w' ! i)"
    then have i: "i < length (recorders w)" by (simp add: rec len)
    have ne: "i \<noteq> r"
      using st notrec by (auto simp: rec at_r)
    with st have st': "state (recorders w ! i) = recording \<or> stopping (recorders w ! i)"
      by (simp add: rec other)
    have "map stream (recorders w) ! i \<noteq> map stream (recorders w) ! r"
      using nth_eq_iff_index_eq [OF consistentD(2) [OF c], of i r] i r ne by simp
    then have "stream (recorders w ! i) \<noteq> k"
      using i r by (simp add: k_def)
    with consistentD(5) [OF c i st'] show "trackStops w' ! stream (recorders w' ! i) = 0"
      by (simp add: rec str tr tso)
  next
    fix j assume "j < length (trackStops w')"
    then have j: "j < length (trackStops w)" by (simp add: tr lts)
    show "trackStops w' ! j \<le> 1"
    proof (cases "j = k")
      case True
      then show ?thesis by (simp add: tr tsk)
    next
      case False
      with consistentD(6) [OF c j] show ?thesis by (simp add: tr tso)
    qed
  qed
  then show ?thesis
    by (simp add: w'_def xs_def)
qed

lemma consistent_streamGranted:
  assumes c: "consistent w"
  shows "consistent (streamGranted tok ctor start (w\<lparr>awaitingMedia := ms\<rparr>))"
proof -
  have c': "consistent (w\<lparr>awaitingMedia := ms\<rparr>)"
    by (rule consistent_same [OF c]) simp_all
  show ?thesis
  proof (cases ctor)
    case (Some err)
    show ?thesis
      unfolding Some streamGranted_ctor
      by (rule consistent_same [OF consistent_stream [OF c']])
         (simp_all add: microphoneFailed_fields)
  next
    case None
    show ?thesis
    proof (cases start)
      case (Some err)
      show ?thesis
        unfolding None Some streamGranted_start
        by (rule consistent_same [OF consistent_recorder [OF c', of inactive tok]])
           (simp_all add: microphoneFailed_fields)
    next
      case None
      show ?thesis
        unfolding \<open>ctor = None\<close> None streamGranted_ok
        by (rule consistent_same [OF consistent_recorder [OF c', of recording tok]]) simp_all
    qed
  qed
qed

lemma consistent_step:
  assumes c: "consistent w" and s: "step e w = Some w'"
  shows "consistent w'"
proof (cases e)
  case Click
  with s have w': "w' = handleToggleListen w"
    by simp
  show ?thesis
    unfolding w' by (rule consistent_Click [OF c])
next
  case (Input t)
  with s have w': "w' = w\<lparr>geminiApiToken := t\<rparr>"
    by simp
  show ?thesis
    unfolding w' by (rule consistent_same [OF c]) simp_all
next
  case (MediaResolved i ctor start)
  with s have w': "w' = streamGranted (awaitingMedia w ! i) ctor start
                    (w\<lparr>awaitingMedia := without i (awaitingMedia w)\<rparr>)"
    by (simp split: if_splits)
  show ?thesis
    unfolding w' by (rule consistent_streamGranted [OF c])
next
  case (MediaRejected i err)
  with s have w': "w' = microphoneFailed err (w\<lparr>awaitingMedia := without i (awaitingMedia w)\<rparr>)"
    by (simp split: if_splits)
  show ?thesis
    unfolding w' by (rule consistent_same [OF c]) (simp_all add: microphoneFailed_fields)
next
  case (DataAvailable r d)
  with s have w': "w' = ondataavailable d w"
    by (simp split: if_splits)
  show ?thesis
    unfolding w' by (rule consistent_same [OF c]) (simp_all add: ondataavailable_fields)
next
  case (TrackEnded r)
  with s have r: "r < length (recorders w)" "state (recorders w ! r) = recording"
    and w': "w' = stop r w"
    by (simp_all split: if_splits)
  show ?thesis
    unfolding w' by (rule consistent_stop [OF c r])
next
  case (Stop r)
  with s have r: "r < length (recorders w)" "stopping (recorders w ! r)"
    and w': "w' = onstop r
                   (w\<lparr>recorders := (recorders w)[r := (recorders w ! r)\<lparr>stopping := False\<rparr>]\<rparr>)"
    by (simp_all split: if_splits)
  show ?thesis
    unfolding w' by (rule consistent_onstop [OF c r])
next
  case (FetchSettled i fr now)
  with s have w': "w' = transcriptionSettled fr now (w\<lparr>awaitingFetch := without i (awaitingFetch w)\<rparr>)"
    by (simp split: if_splits)
  show ?thesis
    unfolding w' by (rule consistent_same [OF c]) (simp_all add: transcriptionSettled_fields)
qed

lemma consistent_run:
  "consistent w \<Longrightarrow> run es w = Some w' \<Longrightarrow> consistent w'"
  unfolding run_def
proof (induction es arbitrary: w)
  case Nil
  then show ?case by simp
next
  case (Cons e es)
  from Cons.prems(2) obtain w1 where 1: "step e w = Some w1"
    and 2: "runWhile (\<lambda>e w. True) es w1 = Some w'"
    by (rule runWhile_Cons_Some)
  from Cons.IH [OF consistent_step [OF Cons.prems(1) 1] 2] show ?case .
qed

lemma trackStops_handleToggleListen: "trackStops (handleToggleListen w) = trackStops w"
  by (simp add: handleToggleListen_def stop_def Let_def split: option.splits)

lemma trackStops_streamGranted:
  "trackStops (streamGranted tok ctor start w) = trackStops w @ [0]"
  by (cases ctor; cases start)
     (simp_all add: streamGranted_ctor streamGranted_start streamGranted_ok microphoneFailed_fields)

lemma trackStops_step:
  assumes "step e w = Some w'" and "k < length (trackStops w)"
  shows "k < length (trackStops w') \<and> trackStops w ! k \<le> trackStops w' ! k"
proof (cases e)
  case Click
  with assms show ?thesis
    by (auto simp: trackStops_handleToggleListen)
next
  case (Input t)
  with assms show ?thesis by auto
next
  case (MediaResolved i ctor start)
  with assms have "trackStops w' = trackStops w @ [0]"
    by (auto simp: trackStops_streamGranted split: if_splits)
  with assms(2) show ?thesis by (simp add: nth_append)
next
  case (MediaRejected i err)
  with assms show ?thesis
    by (auto simp: microphoneFailed_fields split: if_splits)
next
  case (DataAvailable r d)
  with assms show ?thesis
    by (auto simp: ondataavailable_fields split: if_splits)
next
  case (TrackEnded r)
  with assms show ?thesis
    by (auto simp: stop_def split: if_splits)
next
  case (Stop r)
  with assms(1) obtain j where "trackStops w' = (trackStops w)[j := Suc (trackStops w ! j)]"
    by (auto simp: onstop_fields split: if_splits)
  with assms(2) show ?thesis
    by (cases "k = j") simp_all
next
  case (FetchSettled i fr now)
  with assms show ?thesis
    by (auto simp: transcriptionSettled_fields split: if_splits)
qed

lemma trackStops_run:
  "run es w = Some w' \<Longrightarrow> k < length (trackStops w) \<Longrightarrow>
   k < length (trackStops w') \<and> trackStops w ! k \<le> trackStops w' ! k"
  unfolding run_def
proof (induction es arbitrary: w)
  case Nil
  then show ?case by simp
next
  case (Cons e es)
  from Cons.prems(1) obtain w1 where 1: "step e w = Some w1"
    and 2: "runWhile (\<lambda>e w. True) es w1 = Some w'"
    by (rule runWhile_Cons_Some)
  from trackStops_step [OF 1 Cons.prems(2)]
  have a: "k < length (trackStops w1)" and b: "trackStops w ! k \<le> trackStops w1 ! k"
    by simp_all
  from Cons.IH [OF 2 a] b show ?case by simp
qed

text \<open>
  From any reachable state in which the component is not listening, a session that
  nothing else interrupts (the button, the stream granted, any fragments, none
  included, the button again, any fragments, the recorder's \<open>stop\<close> event) runs to its
  end, and the stream it acquired has then been released once; whatever happens
  afterwards, it stays released once.
\<close>

lemma session_releases_once:
  assumes "run es0 initial = Some w" and "\<not> isListening w"
  shows "\<exists>w'. run (session w ds1 ds2) w = Some w'
           \<and> trackStops w' = trackStops w @ [1]
           \<and> (\<forall>es w''. run es w' = Some w'' \<longrightarrow>
                 length (trackStops w) < length (trackStops w'')
                 \<and> trackStops w'' ! length (trackStops w) = 1)"
proof -
  from session_run [OF assms(2), of ds1 ds2] obtain w'
    where r: "run (session w ds1 ds2) w = Some w'" and t: "trackStops w' = trackStops w @ [1]"
    by simp
  have c: "consistent w'"
    by (rule consistent_run [OF consistent_run [OF consistent_initial assms(1)] r])
  have "length (trackStops w) < length (trackStops w'')
        \<and> trackStops w'' ! length (trackStops w) = 1" if "run es w' = Some w''" for es w''
  proof -
    have k: "length (trackStops w) < length (trackStops w')"
      by (simp add: t)
    from trackStops_run [OF that k]
    have a: "length (trackStops w) < length (trackStops w'')"
      and b: "1 \<le> trackStops w'' ! length (trackStops w)"
      by (simp_all add: t)
    from consistentD(6) [OF consistent_run [OF c that] a] b show ?thesis
      using a by simp
  qed
  with r t show ?thesis by blast
qed

text \<open>
  C5. A stream acquired by a start can stay unreleased although the button is pressed to
  stop afterwards. After two presses before the first call of \<open>getUserMedia\<close> settles
  and two grants, the press that stops reaches the second recorder only; its \<open>stop\<close>
  event releases the second stream, and the first stream has been released zero times.
  It is still so after a further complete session.
\<close>

theorem first_stream_never_released:
  "map_option trackStops
     (run [Click, Click, MediaResolved 0 None None, MediaResolved 0 None None, Click, Stop 1]
        initial)
   = Some [0, 1]
   \<and> map_option trackStops
       (run [Click, Click, MediaResolved 0 None None, MediaResolved 0 None None, Click, Stop 1,
             Click, MediaResolved 0 None None, Click, Stop 2]
          initial)
     = Some [0, 1, 1]"
  by (simp add: run_def initial_def handleToggleListen_def streamGranted_def without_def
        stop_def onstop_def sendAudioForTranscription_def Let_def)

subsection \<open>Fragments and the audio file\<close>

text \<open>
  A fragment of length zero delivered to a recorder leaves the state, and so the buffer,
  as it was. At the end of a session that nothing else interrupts, the buffer holds the
  fragments of non-zero length in their order of arrival, and the file sent for
  transcription is their concatenation in that order.
\<close>

lemma session_artifact:
  "(r < length (recorders w)
      \<and> (state (recorders w ! r) = recording \<or> stopping (recorders w ! r))
      \<and> length d = 0 \<longrightarrow>
    step (DataAvailable r d) w = Some w)
   \<and> (\<not> isListening w \<longrightarrow>
        (\<exists>w' form. run (session w ds1 ds2) w = Some w'
           \<and> audioChunksRef w' = filter (\<lambda>d. 0 < length d) (ds1 @ ds2)
           \<and> awaitingFetch w' = awaitingFetch w @ [form]
           \<and> get form ''audio_file''
               = Some (FFile \<lparr>name = ''recording.webm'', type = ''audio/webm'',
                               bytes = concat (filter (\<lambda>d. 0 < length d) (ds1 @ ds2))\<rparr>)))"
proof (intro conjI impI)
  assume "r < length (recorders w)
      \<and> (state (recorders w ! r) = recording \<or> stopping (recorders w ! r))
      \<and> length d = 0"
  then show "step (DataAvailable r d) w = Some w"
    by (simp add: ondataavailable_def)
next
  assume "\<not> isListening w"
  from session_run [OF this, of ds1 ds2] show "\<exists>w' form. run (session w ds1 ds2) w = Some w'
           \<and> audioChunksRef w' = filter (\<lambda>d. 0 < length d) (ds1 @ ds2)
           \<and> awaitingFetch w' = awaitingFetch w @ [form]
           \<and> get form ''audio_file''
               = Some (FFile \<lparr>name = ''recording.webm'', type = ''audio/webm'',
                               bytes = concat (filter (\<lambda>d. 0 < length d) (ds1 @ ds2))\<rparr>)"
    by (simp add: get_def)
qed

text \<open>
  C7. The file assembled at a stop is not always the concatenation of the fragments of
  its session. The buffer is one for all recorders and is cleared when a start is
  granted, and the component stops listening at the press, before the recorder's
  \<open>stop\<close> event. Here a second session is started and granted before the events of the
  first recorder arrive: the fragment \<open>[1, 2]\<close> of the first session lands in the
  cleared buffer, is sent as the first file, stays in the buffer, and the file of the
  second session, whose only fragment is \<open>[9]\<close>, is \<open>[1, 2, 9]\<close>.
\<close>

theorem artifact_mixes_sessions:
  "map_option awaitingFetch
     (runWhile patient
        [Click, MediaResolved 0 None None, Click,
         Click, MediaResolved 0 None None,
         DataAvailable 0 [1, 2], Stop 0,
         Click, DataAvailable 1 [9], Stop 1]
        initial)
   = Some [[(''audio_file'',
             FFile \<lparr>name = ''recording.webm'', type = ''audio/webm'', bytes = [1, 2]\<rparr>)],
           [(''audio_file'',
             FFile \<lparr>name = ''recording.webm'', type = ''audio/webm'', bytes = [1, 2, 9]\<rparr>)]]"
  by (simp add: initial_def handleToggleListen_def streamGranted_def without_def stop_def
        ondataavailable_def onstop_def sendAudioForTranscription_def Let_def)

end
